theory Spec2Isabelle
  imports Complex_Main
begin

section \<open>JavaScript numbers\<close>

text \<open>
  The editor computes with JavaScript numbers. They are modelled as exact reals together
  with the three special values of IEEE arithmetic, so that a division by zero yields an
  infinity or NaN as it does in the program, and does not raise. Rounding error of the
  binary representation, overflow and the sign of zero are not modelled: a zero is the
  positive zero.
\<close>

datatype number = Fin real | PosInf | NegInf | NaN

instantiation number :: "{zero, one, plus, minus, uminus, times, inverse, ord}"
begin

definition zero_number :: number where
  "zero_number = Fin 0"

definition one_number :: number where
  "one_number = Fin 1"

fun uminus_number :: "number \<Rightarrow> number" where
  "uminus_number (Fin a) = Fin (- a)"
| "uminus_number PosInf = NegInf"
| "uminus_number NegInf = PosInf"
| "uminus_number NaN = NaN"

fun plus_number :: "number \<Rightarrow> number \<Rightarrow> number" where
  "plus_number (Fin a) (Fin b) = Fin (a + b)"
| "plus_number NaN _ = NaN"
| "plus_number _ NaN = NaN"
| "plus_number PosInf NegInf = NaN"
| "plus_number NegInf PosInf = NaN"
| "plus_number PosInf _ = PosInf"
| "plus_number NegInf _ = NegInf"
| "plus_number _ PosInf = PosInf"
| "plus_number _ NegInf = NegInf"

fun minus_number :: "number \<Rightarrow> number \<Rightarrow> number" where
  "minus_number (Fin a) (Fin b) = Fin (a - b)"
| "minus_number NaN _ = NaN"
| "minus_number _ NaN = NaN"
| "minus_number PosInf PosInf = NaN"
| "minus_number NegInf NegInf = NaN"
| "minus_number PosInf _ = PosInf"
| "minus_number NegInf _ = NegInf"
| "minus_number _ PosInf = NegInf"
| "minus_number _ NegInf = PosInf"

fun times_number :: "number \<Rightarrow> number \<Rightarrow> number" where
  "times_number (Fin a) (Fin b) = Fin (a * b)"
| "times_number NaN _ = NaN"
| "times_number _ NaN = NaN"
| "times_number (Fin a) PosInf = (if a = 0 then NaN else if 0 < a then PosInf else NegInf)"
| "times_number (Fin a) NegInf = (if a = 0 then NaN else if 0 < a then NegInf else PosInf)"
| "times_number PosInf (Fin b) = (if b = 0 then NaN else if 0 < b then PosInf else NegInf)"
| "times_number NegInf (Fin b) = (if b = 0 then NaN else if 0 < b then NegInf else PosInf)"
| "times_number PosInf PosInf = PosInf"
| "times_number PosInf NegInf = NegInf"
| "times_number NegInf PosInf = NegInf"
| "times_number NegInf NegInf = PosInf"

fun divide_number :: "number \<Rightarrow> number \<Rightarrow> number" where
  "divide_number (Fin a) (Fin b) =
     (if b \<noteq> 0 then Fin (a / b)
      else if a = 0 then NaN else if 0 < a then PosInf else NegInf)"
| "divide_number NaN _ = NaN"
| "divide_number _ NaN = NaN"
| "divide_number (Fin a) PosInf = Fin 0"
| "divide_number (Fin a) NegInf = Fin 0"
| "divide_number PosInf (Fin b) = (if 0 \<le> b then PosInf else NegInf)"
| "divide_number NegInf (Fin b) = (if 0 \<le> b then NegInf else PosInf)"
| "divide_number PosInf _ = NaN"
| "divide_number NegInf _ = NaN"

fun inverse_number :: "number \<Rightarrow> number" where
  "inverse_number (Fin a) = (if a \<noteq> 0 then Fin (1 / a) else PosInf)"
| "inverse_number PosInf = Fin 0"
| "inverse_number NegInf = Fin 0"
| "inverse_number NaN = NaN"

fun less_number :: "number \<Rightarrow> number \<Rightarrow> bool" where
  "less_number (Fin a) (Fin b) = (a < b)"
| "less_number NaN _ = False"
| "less_number _ NaN = False"
| "less_number NegInf NegInf = False"
| "less_number NegInf _ = True"
| "less_number PosInf _ = False"
| "less_number (Fin a) PosInf = True"
| "less_number (Fin a) NegInf = False"

fun less_eq_number :: "number \<Rightarrow> number \<Rightarrow> bool" where
  "less_eq_number (Fin a) (Fin b) = (a \<le> b)"
| "less_eq_number NaN _ = False"
| "less_eq_number _ NaN = False"
| "less_eq_number NegInf _ = True"
| "less_eq_number PosInf PosInf = True"
| "less_eq_number PosInf _ = False"
| "less_eq_number (Fin a) PosInf = True"
| "less_eq_number (Fin a) NegInf = False"

instance ..

end

text \<open>\<open>a === b\<close> and \<open>a !== b\<close> on numbers: NaN is different from every number, itself included.\<close>

definition strict_eq :: "number \<Rightarrow> number \<Rightarrow> bool" where
  "strict_eq a b = (a \<noteq> NaN \<and> b \<noteq> NaN \<and> a = b)"

definition strict_ne :: "number \<Rightarrow> number \<Rightarrow> bool" where
  "strict_ne a b = (\<not> strict_eq a b)"

text \<open>\<open>Math.min\<close> of two numbers.\<close>

definition Math_min :: "number \<Rightarrow> number \<Rightarrow> number" where
  "Math_min a b = (if a = NaN \<or> b = NaN then NaN else if a < b then a else b)"

text \<open>\<open>Math.sqrt\<close>.\<close>

fun Math_sqrt :: "number \<Rightarrow> number" where
  "Math_sqrt (Fin a) = (if a < 0 then NaN else Fin (sqrt a))"
| "Math_sqrt PosInf = PosInf"
| "Math_sqrt NegInf = NaN"
| "Math_sqrt NaN = NaN"

text \<open>\<open>Math.pow\<close> with an exponent that is a natural number, as at every call in the program.\<close>

fun Math_pow :: "number \<Rightarrow> nat \<Rightarrow> number" where
  "Math_pow (Fin a) k = Fin (a ^ k)"
| "Math_pow PosInf k = (if k = 0 then Fin 1 else PosInf)"
| "Math_pow NegInf k = (if k = 0 then Fin 1 else if even k then PosInf else NegInf)"
| "Math_pow NaN k = (if k = 0 then Fin 1 else NaN)"

text \<open>
  \<open>Math.cos\<close>, \<open>Math.sin\<close> and \<open>Math.atan2\<close>.
\<close>

fun Math_cos :: "number \<Rightarrow> number" where
  "Math_cos (Fin a) = Fin (cos a)"
| "Math_cos _ = NaN"

fun Math_sin :: "number \<Rightarrow> number" where
  "Math_sin (Fin a) = Fin (sin a)"
| "Math_sin _ = NaN"

definition atan2 :: "real \<Rightarrow> real \<Rightarrow> real" where
  "atan2 b a =
     (if 0 < a then arctan (b / a)
      else if a < 0 then (if 0 \<le> b then arctan (b / a) + pi else arctan (b / a) - pi)
      else if 0 < b then pi / 2 else if b < 0 then - (pi / 2) else 0)"

fun Math_atan2 :: "number \<Rightarrow> number \<Rightarrow> number" where
  "Math_atan2 (Fin b) (Fin a) = Fin (atan2 b a)"
| "Math_atan2 NaN _ = NaN"
| "Math_atan2 _ NaN = NaN"
| "Math_atan2 PosInf (Fin a) = Fin (pi / 2)"
| "Math_atan2 NegInf (Fin a) = Fin (- (pi / 2))"
| "Math_atan2 (Fin b) PosInf = Fin 0"
| "Math_atan2 (Fin b) NegInf = (if 0 \<le> b then Fin pi else Fin (- pi))"
| "Math_atan2 PosInf PosInf = Fin (pi / 4)"
| "Math_atan2 PosInf NegInf = Fin (3 * pi / 4)"
| "Math_atan2 NegInf PosInf = Fin (- (pi / 4))"
| "Math_atan2 NegInf NegInf = Fin (- (3 * pi / 4))"

text \<open>
  The remainder \<open>a % b\<close>: the result has the sign of the dividend.
\<close>

definition trunc :: "real \<Rightarrow> int" where
  "trunc r = (if 0 \<le> r then \<lfloor>r\<rfloor> else \<lceil>r\<rceil>)"

fun js_rem :: "number \<Rightarrow> number \<Rightarrow> number" where
  "js_rem (Fin a) (Fin b) = (if b = 0 then NaN else Fin (a - b * real_of_int (trunc (a / b))))"
| "js_rem (Fin a) PosInf = Fin a"
| "js_rem (Fin a) NegInf = Fin a"
| "js_rem _ _ = NaN"

text \<open>
  \<open>parseFloat(a.toFixed(p))\<close>: \<open>toFixed\<close> prints the decimal with \<open>p\<close> digits after the
  point that is nearest to the number, the larger in magnitude of two equally near ones,
  and prints a number of magnitude \<open>10^21\<close> or more, an infinity and NaN as they are;
  \<open>parseFloat\<close> reads the text back.
\<close>

definition round_to :: "nat \<Rightarrow> real \<Rightarrow> real" where
  "round_to p r = sgn r * real_of_int \<lfloor>\<bar>r\<bar> * 10 ^ p + 1 / 2\<rfloor> / 10 ^ p"

fun toFixed :: "nat \<Rightarrow> number \<Rightarrow> number" where
  "toFixed p (Fin r) = (if 10 ^ 21 \<le> \<bar>r\<bar> then Fin r else Fin (round_to p r))"
| "toFixed p PosInf = PosInf"
| "toFixed p NegInf = NegInf"
| "toFixed p NaN = NaN"

section \<open>Points: \<open>Vertex\<close>, \<open>Knot\<close>, \<open>Control\<close>, \<open>EndPointControl\<close>\<close>

text \<open>
  The classes of \<open>math/Path.tsx\<close>. \<open>Knot\<close> and \<open>Control\<close> extend \<open>Vertex\<close>, and
  \<open>EndPointControl\<close> extends \<open>Control\<close>. The heading of a knot may be undefined; the
  heading of an end point is a number (field \<open>ep_heading\<close>, the source's \<open>heading\<close>).
\<close>

record Vertex =
  x :: number
  y :: number

record Knot = Vertex +
  delta :: number
  integral :: number
  speed :: number
  heading :: "number option"

record Control = Vertex +
  uid :: nat
  lock :: bool
  visible :: bool

record EndPointControl = Control +
  ep_heading :: number

text \<open>An object whose static type is \<open>Vertex\<close> (or \<open>T extends Vertex\<close>), with its class.\<close>

datatype point =
    AVertex Vertex
  | AKnot Knot
  | AControl Control
  | AnEndPoint EndPointControl

fun get_x :: "point \<Rightarrow> number" where
  "get_x (AVertex v) = x v"
| "get_x (AKnot k) = x k"
| "get_x (AControl c) = x c"
| "get_x (AnEndPoint e) = x e"

fun get_y :: "point \<Rightarrow> number" where
  "get_y (AVertex v) = y v"
| "get_y (AKnot k) = y k"
| "get_y (AControl c) = y c"
| "get_y (AnEndPoint e) = y e"

fun set_x :: "point \<Rightarrow> number \<Rightarrow> point" where
  "set_x (AVertex v) a = AVertex (v\<lparr>x := a\<rparr>)"
| "set_x (AKnot k) a = AKnot (k\<lparr>x := a\<rparr>)"
| "set_x (AControl c) a = AControl (c\<lparr>x := a\<rparr>)"
| "set_x (AnEndPoint e) a = AnEndPoint (e\<lparr>x := a\<rparr>)"

fun set_y :: "point \<Rightarrow> number \<Rightarrow> point" where
  "set_y (AVertex v) a = AVertex (v\<lparr>y := a\<rparr>)"
| "set_y (AKnot k) a = AKnot (k\<lparr>y := a\<rparr>)"
| "set_y (AControl c) a = AControl (c\<lparr>y := a\<rparr>)"
| "set_y (AnEndPoint e) a = AnEndPoint (e\<lparr>y := a\<rparr>)"

text \<open>\<open>p.heading\<close> read through a cast to \<open>EndPointControl\<close>: undefined on the other classes
  but \<open>Knot\<close>, which has a heading of its own.\<close>

fun get_heading :: "point \<Rightarrow> number option" where
  "get_heading (AnEndPoint e) = Some (ep_heading e)"
| "get_heading (AKnot k) = heading k"
| "get_heading _ = None"

subsection \<open>The identifier generator\<close>

text \<open>
  Modelled from the spec: \<open>makeId\<close> of \<open>app/Util\<close> is not among the sources. The spec
  describes it as a pure function producing a fresh random identifier string. The
  generator is modelled by the number of identifiers it has handed out, and the
  identifier it returns by that number, so that two calls never return the same one.
\<close>

type_synonym idgen = nat

definition makeId :: "nat \<Rightarrow> idgen \<Rightarrow> nat \<times> idgen" where
  "makeId len g = (g, Suc g)"

subsection \<open>Constructors\<close>

definition new_Vertex :: "number \<Rightarrow> number \<Rightarrow> Vertex" where
  "new_Vertex a b = \<lparr>x = a, y = b\<rparr>"

definition new_Knot :: "number \<Rightarrow> number \<Rightarrow> number \<Rightarrow> number \<Rightarrow> number \<Rightarrow> number option \<Rightarrow> Knot" where
  "new_Knot a b d i s h = \<lparr>x = a, y = b, delta = d, integral = i, speed = s, heading = h\<rparr>"

definition new_Control :: "number \<Rightarrow> number \<Rightarrow> idgen \<Rightarrow> Control \<times> idgen" where
  "new_Control a b g =
     (let (i, g') = makeId 10 g
      in (\<lparr>x = a, y = b, uid = i, lock = False, visible = True\<rparr>, g'))"

definition new_EndPointControl :: "number \<Rightarrow> number \<Rightarrow> number \<Rightarrow> idgen \<Rightarrow> EndPointControl \<times> idgen" where
  "new_EndPointControl a b h g =
     (let (i, g') = makeId 10 g
      in (\<lparr>x = a, y = b, uid = i, lock = False, visible = True, ep_heading = h\<rparr>, g'))"

subsection \<open>\<open>clone\<close> and \<open>fixPrecision\<close>, by class\<close>

fun clone :: "point \<Rightarrow> idgen \<Rightarrow> point \<times> idgen" where
  "clone (AVertex v) g = (AVertex (new_Vertex (x v) (y v)), g)"
| "clone (AKnot k) g =
     (AKnot (new_Knot (x k) (y k) (delta k) (integral k) (speed k) (heading k)), g)"
| "clone (AControl c) g = (let (c', g') = new_Control (x c) (y c) g in (AControl c', g'))"
| "clone (AnEndPoint e) g =
     (let (e', g') = new_EndPointControl (x e) (y e) (ep_heading e) g in (AnEndPoint e', g'))"

text \<open>\<open>Vertex.fixPrecision(p = 3)\<close>, on any class.\<close>

definition Vertex_fixPrecision :: "nat \<Rightarrow> point \<Rightarrow> point" where
  "Vertex_fixPrecision p v =
     (let v1 = set_x v (toFixed p (get_x v)) in set_y v1 (toFixed p (get_y v1)))"

text \<open>\<open>EndPointControl.fixPrecision(p = 2)\<close>: the coordinates through \<open>super\<close> with the
  same \<open>p\<close>, then the heading.\<close>

definition normalize_heading :: "nat \<Rightarrow> number \<Rightarrow> number" where
  "normalize_heading p h =
     (let h1 = js_rem h (Fin 360);
          h2 = (if h1 < Fin 0 then h1 + Fin 360 else h1)
      in toFixed p h2)"

definition EndPointControl_fixPrecision :: "nat \<Rightarrow> EndPointControl \<Rightarrow> point" where
  "EndPointControl_fixPrecision p e =
     (case Vertex_fixPrecision p (AnEndPoint e) of
        AnEndPoint e1 \<Rightarrow> AnEndPoint (e1\<lparr>ep_heading := normalize_heading p (ep_heading e1)\<rparr>)
      | other \<Rightarrow> other)"

text \<open>The call \<open>v.fixPrecision()\<close> with no argument: each class with its own default.\<close>

fun fixPrecision :: "point \<Rightarrow> point" where
  "fixPrecision (AnEndPoint e) = EndPointControl_fixPrecision 2 e"
| "fixPrecision v = Vertex_fixPrecision 3 v"

subsection \<open>The methods of \<open>Vertex\<close>\<close>

definition add :: "point \<Rightarrow> point \<Rightarrow> idgen \<Rightarrow> point \<times> idgen" where
  "add this vector g =
     (let (rtn, g') = clone vector g;
          rtn = set_x rtn (get_x rtn + get_x this);
          rtn = set_y rtn (get_y rtn + get_y this)
      in (fixPrecision rtn, g'))"

definition subtract :: "point \<Rightarrow> point \<Rightarrow> idgen \<Rightarrow> point \<times> idgen" where
  "subtract this vector g =
     (let (rtn, g') = clone vector g;
          rtn = set_x rtn (get_x this - get_x rtn);
          rtn = set_y rtn (get_y this - get_y rtn)
      in (fixPrecision rtn, g'))"

definition multiply :: "point \<Rightarrow> point \<Rightarrow> idgen \<Rightarrow> point \<times> idgen" where
  "multiply this vector g =
     (let (rtn, g') = clone vector g;
          rtn = set_x rtn (get_x rtn * get_x this);
          rtn = set_y rtn (get_y rtn * get_y this)
      in (fixPrecision rtn, g'))"

definition divide_v :: "point \<Rightarrow> point \<Rightarrow> idgen \<Rightarrow> point \<times> idgen" where
  "divide_v this vector g =
     (let (rtn, g') = clone vector g;
          rtn = set_x rtn (get_x this / get_x rtn);
          rtn = set_y rtn (get_y this / get_y rtn)
      in (fixPrecision rtn, g'))"

definition dot :: "point \<Rightarrow> point \<Rightarrow> number" where
  "dot this vector = get_x this * get_x vector + get_y this * get_y vector"

definition distance :: "point \<Rightarrow> point \<Rightarrow> number" where
  "distance this vector =
     Math_sqrt (Math_pow (get_x this - get_x vector) 2 + Math_pow (get_y this - get_y vector) 2)"

definition interpolate :: "point \<Rightarrow> point \<Rightarrow> number \<Rightarrow> idgen \<Rightarrow> point \<times> idgen" where
  "interpolate this other len g =
     (let (rtn, g') = clone other g;
          angle = Math_atan2 (get_y rtn - get_y this) (get_x rtn - get_x this);
          rtn = set_x rtn (get_x this + len * Math_cos angle);
          rtn = set_y rtn (get_y this + len * Math_sin angle)
      in (fixPrecision rtn, g'))"

definition mirror :: "point \<Rightarrow> point \<Rightarrow> idgen \<Rightarrow> point \<times> idgen" where
  "mirror this other g =
     (let (rtn, g') = clone other g;
          rtn = set_x rtn (Fin 2 * get_x this - get_x other);
          rtn = set_y rtn (Fin 2 * get_y this - get_y other)
      in (fixPrecision rtn, g'))"

definition setXY :: "point \<Rightarrow> point \<Rightarrow> point" where
  "setXY this other =
     (let this = set_x this (get_x other);
          this = set_y this (get_y other)
      in fixPrecision this)"

section \<open>Splines\<close>

text \<open>
  A failing property read (\<open>undefined.x\<close>) raises a \<open>TypeError\<close>. A loop that does not
  end has no result: \<open>None\<close>.
\<close>

datatype error = TypeError

text \<open>Calls in sequence: the first error ends the sequence.\<close>

definition and_then :: "error + 'a \<Rightarrow> ('a \<Rightarrow> error + 'b) \<Rightarrow> error + 'b" where
  "and_then r f = (case r of Inl e \<Rightarrow> Inl e | Inr v \<Rightarrow> f v)"

record Spline =
  controls :: "point list"
  spline_uid :: nat

text \<open>The constructor: \<open>start\<close> is undefined when the object is built for deserialisation.\<close>

definition new_Spline :: "point option \<Rightarrow> point list \<Rightarrow> point \<Rightarrow> idgen \<Rightarrow> Spline \<times> idgen" where
  "new_Spline start middle end_point g =
     (let cs = (case start of None \<Rightarrow> [] | Some s \<Rightarrow> [s] @ middle @ [end_point]);
          (i, g') = makeId 10 g
      in (\<lparr>controls = cs, spline_uid = i\<rparr>, g'))"

text \<open>
  \<open>first()\<close> and \<open>last()\<close> read \<open>controls[0]\<close> and \<open>controls[length - 1]\<close>: undefined
  (\<open>None\<close>) on an empty array.
\<close>

definition first :: "Spline \<Rightarrow> point option" where
  "first s = (case controls s of [] \<Rightarrow> None | c # _ \<Rightarrow> Some c)"

definition last_control :: "Spline \<Rightarrow> point option" where
  "last_control s = (if controls s = [] then None else Some (last (controls s)))"

text \<open>
  \<open>binomial(n, k)\<close>: the product of \<open>n - k + 1, ..., n\<close> divided in turn by \<open>1, ..., k\<close>.
  It is called with \<open>0 \<le> k \<le> n\<close> only, where \<open>n - k + 1\<close> is the same on naturals.
\<close>

definition Spline_binomial :: "nat \<Rightarrow> nat \<Rightarrow> number" where
  "Spline_binomial n k =
     (let coeff = fold (\<lambda>i c. c * Fin (real i)) [n - k + 1 ..< Suc n] (Fin 1)
      in fold (\<lambda>i c. c / Fin (real i)) [1 ..< Suc k] coeff)"

definition bernstein :: "nat \<Rightarrow> nat \<Rightarrow> number \<Rightarrow> number" where
  "bernstein n i t = Spline_binomial n i * Math_pow t i * Math_pow (Fin 1 - t) (n - i)"

text \<open>
  The body shared by \<open>distance\<close> and \<open>calculateBezierCurveKnots\<close>: the point of the
  curve at parameter \<open>t\<close>, summed over the controls \<open>0, ..., n\<close> with \<open>n = length - 1\<close>.
  The array is not empty where this is called.
\<close>

definition bezier_point :: "point list \<Rightarrow> number \<Rightarrow> Vertex" where
  "bezier_point cs t =
     (let n = length cs - 1
      in fold (\<lambda>i pt.
                 (let b = bernstein n i t; controlPoint = cs ! i
                  in pt\<lparr>x := x pt + get_x controlPoint * b,
                        y := y pt + get_y controlPoint * b\<rparr>))
              [0 ..< Suc n] (new_Vertex (Fin 0) (Fin 0)))"

text \<open>
  The loop \<open>for (t = 0; t <= 1; t += interval)\<close> of \<open>calculateBezierCurveKnots\<close>. With an
  interval that is not positive it does not end.
\<close>

definition bezier_step :: "point list \<Rightarrow> number \<Rightarrow> number \<Rightarrow> point \<Rightarrow> Knot \<times> number \<times> point" where
  "bezier_step cs t totalDistance lastPoint =
     (let pt = bezier_point cs t;
          d = distance (AVertex pt) lastPoint;
          totalDistance = totalDistance + d
      in (new_Knot (x pt) (y pt) d totalDistance (Fin 0) None, totalDistance, AVertex pt))"

partial_function (option) bezier_loop ::
  "point list \<Rightarrow> number \<Rightarrow> number \<Rightarrow> number \<Rightarrow> point \<Rightarrow> Knot list \<Rightarrow> Knot list option" where
  "bezier_loop cs interval t totalDistance lastPoint knots =
     (if t \<le> Fin 1
      then bezier_loop cs interval (t + interval)
             (fst (snd (bezier_step cs t totalDistance lastPoint)))
             (snd (snd (bezier_step cs t totalDistance lastPoint)))
             (knots @ [fst (bezier_step cs t totalDistance lastPoint)])
      else Some knots)"

text \<open>
  On an empty array of controls the first round of the loop (\<open>t = 0\<close>) reads
  \<open>lastPoint.x\<close> of the undefined \<open>controls[0]\<close>.
\<close>

definition calculateBezierCurveKnots :: "Spline \<Rightarrow> number \<Rightarrow> number \<Rightarrow> (error + Knot list) option" where
  "calculateBezierCurveKnots s interval integral0 =
     (case controls s of
        [] \<Rightarrow> Some (Inl TypeError)
      | c # _ \<Rightarrow> map_option Inr (bezier_loop (controls s) interval (Fin 0) integral0 c []))"

subsection \<open>Configuration\<close>

text \<open>
  \<open>GeneralConfig\<close>, \<open>SpeedConfig\<close> (\<open>format/Config\<close>) and \<open>UnitConverter\<close> (\<open>math/Unit\<close>) are
  not among the sources. Of the general configuration the program reads \<open>knotDensity\<close>
  and \<open>uol\<close>, the latter only to convert a length to centimetres: the field \<open>toCentimeter\<close>
  stands for \<open>new UnitConverter(gc.uol, UnitOfLength.Centimeter).fromAtoB\<close>. A range is a
  pair of numbers \<open>{from, to}\<close>.
\<close>

record GeneralConfig =
  knotDensity :: number
  toCentimeter :: "number \<Rightarrow> number"

record NumberRange =
  range_from :: number
  range_to :: number

record SpeedConfig =
  speedLimit :: NumberRange
  applicationRange :: NumberRange
  transitionRange :: NumberRange

subsection \<open>\<open>Spline.calculateKnots\<close>\<close>

definition set_first_heading :: "Spline \<Rightarrow> Knot list \<Rightarrow> Knot list" where
  "set_first_heading s knots =
     (if length knots > 1
      then (knots ! 0)\<lparr>heading := (case first s of None \<Rightarrow> None | Some c \<Rightarrow> get_heading c)\<rparr> # tl knots
      else knots)"

definition Spline_calculateKnots ::
  "GeneralConfig \<Rightarrow> SpeedConfig \<Rightarrow> Spline \<Rightarrow> number \<Rightarrow> (error + Knot list) option" where
  "Spline_calculateKnots gc sc s integral0 =
     (let targetInterval = toCentimeter gc (knotDensity gc) / Fin 200
      in case calculateBezierCurveKnots s targetInterval integral0 of
           None \<Rightarrow> None
         | Some (Inl e) \<Rightarrow> Some (Inl e)
         | Some (Inr knots0) \<Rightarrow>
             (case last_control s of
                None \<Rightarrow> Some (Inl TypeError)
              | Some lastControl \<Rightarrow>
                  (if knots0 = [] then Some (Inl TypeError)
                   else
                     let knots = set_first_heading s knots0;
                         lastKnot = last knots;
                         d = distance (AKnot lastKnot) lastControl;
                         integralDistance = integral lastKnot + d;
                         finalKnot = new_Knot (get_x lastControl) (get_y lastControl) d
                                       integralDistance (Fin 0) (get_heading lastControl);
                         knots = knots @ [finalKnot];
                         splineDeltaRatio = (Fin 1 / targetInterval)
                                            / ((integralDistance - integral0) / knotDensity gc)
                     in Some (Inr (map (\<lambda>k. k\<lparr>delta := delta k * splineDeltaRatio\<rparr>) knots)))))"

section \<open>Paths\<close>

record Path =
  splines :: "Spline list"
  name :: string
  path_uid :: nat
  path_lock :: bool
  path_visible :: bool
  cachedKnots :: "Knot list"

definition new_Path :: "Spline \<Rightarrow> idgen \<Rightarrow> Path \<times> idgen" where
  "new_Path firstSpline g =
     (let (i, g') = makeId 10 g
      in (\<lparr>splines = [firstSpline], name = ''Path'', path_uid = i, path_lock = False,
           path_visible = True, cachedKnots = []\<rparr>, g'))"

subsection \<open>\<open>Path.calculateKnots\<close>, first pass\<close>

text \<open>
  The loop over the splines, with the knots gathered so far and the total travel distance.
  \<open>Spline.calculateKnots\<close> returns two knots or more, so \<open>firstKnot\<close> is defined.
\<close>

fun pass1 ::
  "GeneralConfig \<Rightarrow> SpeedConfig \<Rightarrow> Spline list \<Rightarrow> Knot list \<Rightarrow> number
     \<Rightarrow> (error + Knot list \<times> number) option" where
  "pass1 gc sc [] gen1 pathTTD = Some (Inr (gen1, pathTTD))"
| "pass1 gc sc (spline # rest) gen1 pathTTD =
     (case Spline_calculateKnots gc sc spline pathTTD of
        None \<Rightarrow> None
      | Some (Inl e) \<Rightarrow> Some (Inl e)
      | Some (Inr []) \<Rightarrow> Some (Inl TypeError)
      | Some (Inr (firstKnot # knots)) \<Rightarrow>
          (let gen1 = (if strict_eq pathTTD (Fin 0) then gen1 @ [firstKnot] else gen1);
               gen1 = gen1 @ knots
           in if gen1 = [] then Some (Inl TypeError)
              else pass1 gc sc rest gen1 (integral (last gen1))))"

subsection \<open>Speed\<close>

text \<open>The function \<open>calculateSpeed\<close> local to \<open>Path.calculateKnots\<close>, with the constants
  computed before it.\<close>

definition calculateSpeed :: "SpeedConfig \<Rightarrow> number \<Rightarrow> Knot \<Rightarrow> Knot" where
  "calculateSpeed sc pathTTD p3 =
     (let speedDiff = range_to (speedLimit sc) - range_from (speedLimit sc);
          applicationDiff = range_to (applicationRange sc) - range_from (applicationRange sc);
          useRatio = (strict_ne speedDiff (Fin 0) \<and> strict_ne applicationDiff (Fin 0));
          applicationRatio = speedDiff / applicationDiff;
          accelThreshold = range_from (transitionRange sc) * pathTTD;
          decThreshold = range_to (transitionRange sc) * pathTTD;
          accelSpeedScale = speedDiff / range_from (transitionRange sc);
          decSpeedScale = speedDiff / (Fin 1 - range_to (transitionRange sc));
          d = delta p3;
          p3 = (if d < range_from (applicationRange sc) \<and> strict_ne d (Fin 0)
                then p3\<lparr>speed := range_from (speedLimit sc)\<rparr>
                else if range_to (applicationRange sc) < d
                then p3\<lparr>speed := range_to (speedLimit sc)\<rparr>
                else if useRatio \<and> strict_ne d (Fin 0)
                then p3\<lparr>speed := range_from (speedLimit sc)
                                   + (d - range_from (applicationRange sc)) * applicationRatio\<rparr>
                else p3\<lparr>speed := range_to (speedLimit sc)\<rparr>)
      in if integral p3 < accelThreshold
         then p3\<lparr>speed := Math_min (speed p3)
                  (range_from (speedLimit sc) + (integral p3 / pathTTD) * accelSpeedScale)\<rparr>
         else if decThreshold < integral p3
         then p3\<lparr>speed := Math_min (speed p3)
                  (range_from (speedLimit sc) + (Fin 1 - integral p3 / pathTTD) * decSpeedScale)\<rparr>
         else p3)"

subsection \<open>Second pass\<close>

text \<open>
  The loop \<open>while (gen1[closestIdx].integral < integral)\<close>, with the heading found so
  far. Reading \<open>integral\<close> of an element past the end of the array raises.
\<close>

function advance :: "Knot list \<Rightarrow> number \<Rightarrow> nat \<Rightarrow> number option \<Rightarrow> error + nat \<times> number option" where
  "advance gen1 target closestIdx h =
     (if closestIdx < length gen1
      then (if integral (gen1 ! closestIdx) < target
            then advance gen1 target (Suc closestIdx)
                   (if heading (gen1 ! closestIdx) \<noteq> None then heading (gen1 ! closestIdx) else h)
            else Inr (closestIdx, h))
      else Inl TypeError)"
  by pat_completeness auto
termination
  by (relation "measure (\<lambda>(gen1, target, closestIdx, h). length gen1 - closestIdx)") auto

declare advance.simps [simp del]

text \<open>One round of the loop \<open>for (t = 0; t < 1; t += targetInterval)\<close>: the new
  \<open>closestIdx\<close> and the knot pushed.\<close>

definition pass2_step ::
  "Knot list \<Rightarrow> SpeedConfig \<Rightarrow> number \<Rightarrow> number \<Rightarrow> nat \<Rightarrow> error + nat \<times> Knot" where
  "pass2_step gen1 sc pathTTD t closestIdx =
     (let target = t * pathTTD
      in case advance gen1 target closestIdx None of
           Inl e \<Rightarrow> Inl e
         | Inr (closestIdx, h) \<Rightarrow>
             (if closestIdx = 0 then Inl TypeError
              else
                let p1 = gen1 ! (closestIdx - 1);
                    p2 = gen1 ! closestIdx;
                    pRatio = (target - integral p1) / (integral p2 - integral p1);
                    p3X = x p1 + (x p2 - x p1) * pRatio;
                    p3Y = y p1 + (y p2 - y p1) * pRatio;
                    p3Delta = delta p1 + (delta p2 - delta p1) * pRatio;
                    p3 = new_Knot p3X p3Y p3Delta target (Fin 0) h
                in Inr (closestIdx, calculateSpeed sc pathTTD p3)))"

partial_function (option) pass2_loop ::
  "Knot list \<Rightarrow> SpeedConfig \<Rightarrow> number \<Rightarrow> number \<Rightarrow> number \<Rightarrow> nat \<Rightarrow> Knot list
     \<Rightarrow> (error + Knot list) option" where
  "pass2_loop gen1 sc pathTTD targetInterval t closestIdx gen2 =
     (if t < Fin 1
      then (case pass2_step gen1 sc pathTTD t closestIdx of
              Inl e \<Rightarrow> Some (Inl e)
            | Inr r \<Rightarrow> pass2_loop gen1 sc pathTTD targetInterval (t + targetInterval)
                        (fst r) (gen2 @ [snd r]))
      else Some (Inr gen2))"

text \<open>The rest of \<open>calculateKnots\<close> after the first pass. The result is stored in
  \<open>cachedKnots\<close> and returned.\<close>

definition pass2 ::
  "GeneralConfig \<Rightarrow> SpeedConfig \<Rightarrow> Path \<Rightarrow> Knot list \<Rightarrow> number \<Rightarrow> (error + Knot list) option" where
  "pass2 gc sc this gen1 pathTTD =
     (let targetInterval = Fin 1 / (pathTTD / knotDensity gc)
      in case pass2_loop gen1 sc pathTTD targetInterval (Fin 0) 1 [] of
           None \<Rightarrow> None
         | Some (Inl e) \<Rightarrow> Some (Inl e)
         | Some (Inr []) \<Rightarrow> Some (Inl TypeError)
         | Some (Inr (k # ks)) \<Rightarrow>
             (let gen2 = k\<lparr>heading := heading (gen1 ! 0)\<rparr> # ks
              in if splines this = [] then Some (Inl TypeError)
                 else case last_control (last (splines this)) of
                        None \<Rightarrow> Some (Inl TypeError)
                      | Some lastControl \<Rightarrow>
                          (let finalKnot = new_Knot (get_x lastControl) (get_y lastControl)
                                             (Fin 0) (Fin 0) (Fin 0) (get_heading lastControl)
                           in Some (Inr (gen2 @ [finalKnot])))))"

definition Path_calculateKnots ::
  "GeneralConfig \<Rightarrow> SpeedConfig \<Rightarrow> Path \<Rightarrow> (error + Knot list \<times> Path) option" where
  "Path_calculateKnots gc sc this =
     (case pass1 gc sc (splines this) [] (Fin 0) of
        None \<Rightarrow> None
      | Some (Inl e) \<Rightarrow> Some (Inl e)
      | Some (Inr (gen1, pathTTD)) \<Rightarrow>
          (if length gen1 < 2 then Some (Inr (gen1, this\<lparr>cachedKnots := gen1\<rparr>))
           else case pass2 gc sc this gen1 pathTTD of
                  None \<Rightarrow> None
                | Some (Inl e) \<Rightarrow> Some (Inl e)
                | Some (Inr gen2) \<Rightarrow> Some (Inr (gen2, this\<lparr>cachedKnots := gen2\<rparr>))))"

section \<open>Commands\<close>

text \<open>
  The command classes of the second source file. Its \<open>Vector\<close> is the class \<open>Vertex\<close>
  above. Objects are held in stores and named by their address, so that two
  references to one object are one address: \<open>props\<close> holds the objects whose
  properties \<open>UpdateInstancesProperties\<close> writes, as maps from property names to
  values; \<open>ctrls\<close> holds the controls moved by \<open>DragControls\<close>; \<open>paths\<close> is the array of
  paths that \<open>AddPath\<close> and \<open>RemovePath\<close> are built with; \<open>segments\<close> holds the array of
  segments of each path, \<open>segs\<close> the segments and \<open>kfs\<close> the keyframes; \<open>cmds\<close> holds the
  command objects themselves, which \<open>execute\<close>, \<open>undo\<close> and \<open>merge\<close> change. \<open>fresh\<close> is the
  address of the next object that \<open>new\<close> creates. The entities that a command keeps for the
  selection, which \<open>undo\<close> and \<open>redo\<close> publish to the application, are not modelled.
\<close>

datatype jsvalue = Undefined | JNum number | JBool bool | JStr string

type_synonym object = "string \<rightharpoonup> jsvalue"

text \<open>\<open>obj[key]\<close>: a property that is absent reads as \<open>undefined\<close>.\<close>

definition get_prop :: "object \<Rightarrow> string \<Rightarrow> jsvalue" where
  "get_prop obj key = (case obj key of None \<Rightarrow> Undefined | Some v \<Rightarrow> v)"

text \<open>
  Modelled from the spec: the classes \<open>Segment\<close>, \<open>Keyframe\<close> and \<open>KeyframePos\<close> and the
  enumeration \<open>SegmentVariant\<close>, which the command file imports from a file that is not
  among the sources. A segment is the class \<open>Spline\<close> of the first source file (its
  constructor, \<open>first\<close>, \<open>last\<close> and the assignment to \<open>last\<close>, there \<open>setLast\<close>), with the
  array \<open>speedProfiles\<close> of keyframes that the spec gives it; a keyframe has the fields
  \<open>xPos\<close> and \<open>yPos\<close>; a keyframe position names a segment, an \<open>xPos\<close> and a \<open>yPos\<close>.

  An element of an array of objects, or an optional field of a command, is a reference: the
  address of an object, or \<open>undefined\<close> (\<open>None\<close>).
\<close>

datatype SegmentVariant = LINEAR | CURVE

type_synonym ref = "nat option"

record Segment =
  seg_controls :: "ref list"
  speedProfiles :: "ref list"
  seg_uid :: nat

record Keyframe =
  xPos :: number
  yPos :: number

record KeyframePos =
  kp_segment :: nat
  kp_xPos :: number
  kp_yPos :: number

text \<open>
  The command classes, each with its fields in the order of the source:
  \<open>AddSegment(path, end, variant, forward, segment)\<close>,
  \<open>ConvertSegment(path, segment, variant, previousControls, newControls)\<close>,
  \<open>SplitSegment(path, originalSegment, point, forward, previousOriginalSegmentControls,
  newOriginalSegmentControls, newSegment)\<close>,
  \<open>RemoveSegment(path, point, forward, index, segment)\<close>,
  \<open>AddKeyframe(path, pos, kf)\<close>, \<open>MoveKeyframe(path, newPos, kf, oldPos)\<close> and
  \<open>RemoveKeyframe(path, kf, segment, oldIdx)\<close>.
\<close>

datatype command =
    UpdateInstancesProperties (targets: "nat list") (newValues: object)
      (previousValue: "object list option")
  | AddSegment nat nat SegmentVariant bool ref
  | ConvertSegment nat nat SegmentVariant "ref list" "ref list"
  | SplitSegment nat nat nat bool "ref list" "ref list" ref
  | RemoveSegment nat nat bool int ref
  | DragControls (main: nat) (drag_from: point) (drag_to: point) (followers: "nat list")
  | AddKeyframe nat KeyframePos ref
  | MoveKeyframe nat KeyframePos nat "KeyframePos option"
  | RemoveKeyframe nat nat ref int
  | AddPath (path: nat) (forward: bool)
  | RemovePath (path: nat) (index: int) (forward: bool)

record world =
  props :: "nat \<Rightarrow> object"
  ctrls :: "nat \<Rightarrow> point"
  paths :: "nat list"
  cmds :: "nat \<Rightarrow> command"
  ids :: idgen
  segments :: "nat \<Rightarrow> ref list"
  segs :: "nat \<Rightarrow> Segment"
  kfs :: "nat \<Rightarrow> Keyframe"
  fresh :: nat

text \<open>\<open>'merge' in object\<close>.\<close>

fun isMergeable :: "command \<Rightarrow> bool" where
  "isMergeable (UpdateInstancesProperties _ _ _) = True"
| "isMergeable (DragControls _ _ _ _) = True"
| "isMergeable (MoveKeyframe _ _ _ _) = True"
| "isMergeable _ = False"

text \<open>\<open>typeof\<close> of a command: every command is an object.\<close>

definition js_typeof :: "command \<Rightarrow> string" where
  "js_typeof c = ''object''"

subsection \<open>\<open>UpdateInstancesProperties\<close>\<close>

text \<open>\<open>updatePropertiesForTarget\<close>: the previous values, and the target as written.\<close>

definition updatePropertiesForTarget :: "object \<Rightarrow> object \<Rightarrow> object \<times> object" where
  "updatePropertiesForTarget target vals =
     ((\<lambda>key. case vals key of None \<Rightarrow> None | Some _ \<Rightarrow> Some (get_prop target key)),
      target ++ vals)"

definition UIP_execute :: "nat list \<Rightarrow> object \<Rightarrow> (nat \<Rightarrow> object) \<Rightarrow> object list \<times> (nat \<Rightarrow> object)" where
  "UIP_execute ts vals heap =
     fold (\<lambda>t (prev, h).
             (let (p, obj) = updatePropertiesForTarget (h t) vals
              in (prev @ [p], h(t := obj))))
          ts ([], heap)"

text \<open>\<open>undo\<close> reads \<open>previousValue[i]\<close> for each index of \<open>targets\<close>; an index past the
  end of \<open>previousValue\<close> reads \<open>undefined\<close>, over which \<open>for ... in\<close> does nothing.\<close>

definition UIP_undo :: "nat list \<Rightarrow> object list \<Rightarrow> (nat \<Rightarrow> object) \<Rightarrow> (nat \<Rightarrow> object)" where
  "UIP_undo ts prev heap =
     fold (\<lambda>i h. h((ts ! i) := snd (updatePropertiesForTarget (h (ts ! i))
                                      (if i < length prev then prev ! i else Map.empty))))
          [0 ..< length ts] heap"

text \<open>
  \<open>merge(latest)\<close>: the loop reads \<open>latest.previousValue[i]\<close>, which raises when
  \<open>latest\<close> has no \<open>previousValue\<close>, and \<open>latest.newValues\<close>, which is undefined on another
  class: spreading undefined adds nothing. After \<open>execute\<close>, \<open>previousValue\<close> has one
  entry for each target, so the assignment at \<open>i\<close> is within the array.
\<close>

fun latest_previousValue :: "command \<Rightarrow> object list option" where
  "latest_previousValue (UpdateInstancesProperties _ _ pv) = pv"
| "latest_previousValue _ = None"

fun latest_newValues :: "command \<Rightarrow> object" where
  "latest_newValues (UpdateInstancesProperties _ nv _) = nv"
| "latest_newValues _ = Map.empty"

fun UIP_merge_loop ::
  "nat list \<Rightarrow> command \<Rightarrow> object list option \<Rightarrow> object \<Rightarrow> error + object list option \<times> object" where
  "UIP_merge_loop [] latest prev vals = Inr (prev, vals)"
| "UIP_merge_loop (i # is) latest prev vals =
     (case latest_previousValue latest of
        None \<Rightarrow> Inl TypeError
      | Some lp \<Rightarrow>
          (case prev of
             None \<Rightarrow> Inl TypeError
           | Some tp \<Rightarrow>
               UIP_merge_loop is latest
                 (Some (tp[i := (if i < length lp then lp ! i else Map.empty)
                                ++ (if i < length tp then tp ! i else Map.empty)]))
                 (vals ++ latest_newValues latest)))"

subsection \<open>\<open>DragControls\<close>\<close>

text \<open>\<open>cp.setXY(a.add(cp.subtract(b)))\<close> for one follower.\<close>

definition move_follower :: "point \<Rightarrow> point \<Rightarrow> point \<Rightarrow> idgen \<Rightarrow> point \<times> idgen" where
  "move_follower a b cp g =
     (let (d, g1) = subtract cp b g;
          (v, g2) = add a d g1
      in (setXY cp v, g2))"

definition move_followers ::
  "point \<Rightarrow> point \<Rightarrow> nat list \<Rightarrow> (nat \<Rightarrow> point) \<times> idgen \<Rightarrow> (nat \<Rightarrow> point) \<times> idgen" where
  "move_followers a b fs st =
     fold (\<lambda>r (h, g). (let (cp, g') = move_follower a b (h r) g in (h(r := cp), g'))) fs st"

definition Drag_execute :: "nat \<Rightarrow> point \<Rightarrow> point \<Rightarrow> nat list \<Rightarrow> world \<Rightarrow> world" where
  "Drag_execute m frm to fs w =
     (let (h, g) = move_followers to frm fs (ctrls w, ids w)
      in w\<lparr>ctrls := h(m := setXY (h m) to), ids := g\<rparr>)"

definition Drag_undo :: "nat \<Rightarrow> point \<Rightarrow> point \<Rightarrow> nat list \<Rightarrow> world \<Rightarrow> world" where
  "Drag_undo m frm to fs w =
     (let (h, g) = move_followers frm to fs (ctrls w, ids w)
      in w\<lparr>ctrls := h(m := setXY (h m) frm), ids := g\<rparr>)"

subsection \<open>Arrays\<close>

text \<open>\<open>xs.indexOf(a)\<close>, and \<open>xs.splice(start, deleteCount, ...items)\<close> where a negative
  \<open>start\<close> counts from the end.\<close>

fun indexOf :: "'a list \<Rightarrow> 'a \<Rightarrow> int" where
  "indexOf [] a = - 1"
| "indexOf (b # bs) a = (if b = a then 0 else (let i = indexOf bs a in if i < 0 then - 1 else i + 1))"

definition js_splice :: "'a list \<Rightarrow> int \<Rightarrow> nat \<Rightarrow> 'a list \<Rightarrow> 'a list" where
  "js_splice xs start deleteCount items =
     (let n = int (length xs);
          s = nat (if start < 0 then max (n + start) 0 else min start n)
      in take s xs @ items @ drop (s + deleteCount) xs)"

text \<open>\<open>xs[i]\<close>: undefined outside the array.\<close>

definition at_index :: "ref list \<Rightarrow> int \<Rightarrow> ref" where
  "at_index xs i = (if 0 \<le> i \<and> i < int (length xs) then xs ! nat i else None)"

subsection \<open>Segments and keyframes\<close>

text \<open>
  \<open>new\<close>: the object is stored at the next address that holds no object yet. The
  constructor of a segment is the one of \<open>Spline\<close>: it draws an identifier, and leaves the
  array of controls empty when \<open>start\<close> is undefined.
\<close>

definition store_control :: "point \<Rightarrow> world \<Rightarrow> nat \<times> world" where
  "store_control v w =
     (fresh w, w\<lparr>ctrls := (ctrls w)(fresh w := v), fresh := Suc (fresh w)\<rparr>)"

definition new_Segment :: "ref \<Rightarrow> ref list \<Rightarrow> ref \<Rightarrow> world \<Rightarrow> nat \<times> world" where
  "new_Segment start middle end_point w =
     (let cs = (if start = None then [] else [start] @ middle @ [end_point]);
          (i, g) = makeId 10 (ids w)
      in (fresh w,
          w\<lparr>segs := (segs w)(fresh w := \<lparr>seg_controls = cs, speedProfiles = [], seg_uid = i\<rparr>),
            ids := g, fresh := Suc (fresh w)\<rparr>))"

definition new_Keyframe :: "number \<Rightarrow> number \<Rightarrow> world \<Rightarrow> nat \<times> world" where
  "new_Keyframe a b w =
     (fresh w, w\<lparr>kfs := (kfs w)(fresh w := \<lparr>xPos = a, yPos = b\<rparr>), fresh := Suc (fresh w)\<rparr>)"

text \<open>
  \<open>first\<close> and \<open>last\<close> read \<open>controls[0]\<close> and \<open>controls[length - 1]\<close>; the assignment to \<open>last\<close>
  writes \<open>controls[length - 1]\<close>. On an array with no control, which the spec excludes, the
  two read undefined, and the assignment, which adds no element to the array, is
  modelled as leaving the segment as it is.
\<close>

definition seg_first :: "Segment \<Rightarrow> ref" where
  "seg_first s = (case seg_controls s of [] \<Rightarrow> None | c # _ \<Rightarrow> c)"

definition seg_last :: "Segment \<Rightarrow> ref" where
  "seg_last s = (if seg_controls s = [] then None else last (seg_controls s))"

definition seg_set_last :: "Segment \<Rightarrow> ref \<Rightarrow> Segment" where
  "seg_set_last s p =
     (if seg_controls s = [] then s
      else s\<lparr>seg_controls := (seg_controls s)[length (seg_controls s) - 1 := p]\<rparr>)"

definition set_controls :: "nat \<Rightarrow> ref list \<Rightarrow> world \<Rightarrow> world" where
  "set_controls s cs w = w\<lparr>segs := (segs w)(s := (segs w s)\<lparr>seg_controls := cs\<rparr>)\<rparr>"

definition set_profiles :: "nat \<Rightarrow> ref list \<Rightarrow> world \<Rightarrow> world" where
  "set_profiles s ps w = w\<lparr>segs := (segs w)(s := (segs w s)\<lparr>speedProfiles := ps\<rparr>)\<rparr>"

definition set_segments :: "nat \<Rightarrow> ref list \<Rightarrow> world \<Rightarrow> world" where
  "set_segments p ss w = w\<lparr>segments := (segments w)(p := ss)\<rparr>"

text \<open>\<open>a.divide(new Control(2, 2)).add(b.divide(new Control(2, 2)))\<close>.\<close>

definition midpoint :: "point \<Rightarrow> point \<Rightarrow> idgen \<Rightarrow> point \<times> idgen" where
  "midpoint a b g =
     (let (c1, g1) = new_Control (Fin 2) (Fin 2) g;
          (ha, g2) = divide_v a (AControl c1) g1;
          (c2, g3) = new_Control (Fin 2) (Fin 2) g2;
          (hb, g4) = divide_v b (AControl c2) g3
      in add ha hb g4)"

text \<open>
  \<open>array.sort((a, b) => a.xPos - b.xPos)\<close>. The sort of the language is stable, calls the
  comparison on the elements that are not undefined, and puts the undefined elements last;
  \<open>b\<close> stays before \<open>a\<close> when the comparison of \<open>a\<close> with \<open>b\<close>, in this order, is above zero.
  Where the comparison is not consistent, which needs an \<open>xPos\<close> that is NaN, the language
  leaves the order to the implementation, and the model has the order of this insertion
  sort.
\<close>

fun insort_xPos :: "(nat \<Rightarrow> Keyframe) \<Rightarrow> nat \<Rightarrow> nat list \<Rightarrow> nat list" where
  "insort_xPos k a [] = [a]"
| "insort_xPos k a (b # bs) =
     (if Fin 0 < xPos (k a) - xPos (k b) then b # insort_xPos k a bs else a # b # bs)"

definition sort_xPos :: "(nat \<Rightarrow> Keyframe) \<Rightarrow> ref list \<Rightarrow> ref list" where
  "sort_xPos k rs =
     map Some (foldr (insort_xPos k) (List.map_filter (\<lambda>r. r) rs) [])
     @ filter (\<lambda>r. r = None) rs"

text \<open>\<open>segment.speedProfiles.push(kf)\<close> followed by the sort.\<close>

definition push_keyframe :: "nat \<Rightarrow> ref \<Rightarrow> world \<Rightarrow> world" where
  "push_keyframe s kf w =
     set_profiles s (sort_xPos (kfs w) (speedProfiles (segs w s) @ [kf])) w"

text \<open>
  The loop of \<open>MoveKeyframe.execute\<close> and \<open>RemoveKeyframe.execute\<close> up to its \<open>break\<close>: the
  first segment of the array whose \<open>speedProfiles\<close> holds the keyframe, and the index of the
  keyframe there. Reading \<open>speedProfiles\<close> of an undefined element raises.
\<close>

fun find_keyframe :: "(nat \<Rightarrow> Segment) \<Rightarrow> ref list \<Rightarrow> nat \<Rightarrow> error + (nat \<times> int) option" where
  "find_keyframe sg [] kf = Inr None"
| "find_keyframe sg (None # rs) kf = Inl TypeError"
| "find_keyframe sg (Some s # rs) kf =
     (let idx = indexOf (speedProfiles (sg s)) (Some kf)
      in if idx = - 1 then find_keyframe sg rs kf else Inr (Some (s, idx)))"

text \<open>
  The loop of \<open>RemoveSegment.execute\<close> up to the branch it takes: the index \<open>i\<close>, the
  segment, and whether the point is the first control of the segment (otherwise it is the
  last control of the last segment). \<open>n\<close> is the length of the array.
\<close>

fun find_segment ::
  "(nat \<Rightarrow> Segment) \<Rightarrow> ref list \<Rightarrow> nat \<Rightarrow> nat \<Rightarrow> nat \<Rightarrow> error + (nat \<times> nat \<times> bool) option" where
  "find_segment sg [] i n pt = Inr None"
| "find_segment sg (None # rs) i n pt = Inl TypeError"
| "find_segment sg (Some s # rs) i n pt =
     (if seg_first (sg s) = Some pt then Inr (Some (i, s, True))
      else if i + 1 = n \<and> seg_last (sg s) = Some pt then Inr (Some (i, s, False))
      else find_segment sg rs (i + 1) n pt)"

subsection \<open>\<open>AddSegment\<close>\<close>

text \<open>The two methods return the new segment, which \<open>execute\<close> keeps in \<open>segment\<close>.\<close>

definition AddSegment_addLine :: "nat \<Rightarrow> nat \<Rightarrow> world \<Rightarrow> error + nat \<times> world" where
  "AddSegment_addLine p e w =
     (if segments w p = []
      then (let (e0, g) = new_EndPointControl (Fin 0) (Fin 0) (Fin 0) (ids w);
                (p0, w1) = store_control (AnEndPoint e0) (w\<lparr>ids := g\<rparr>);
                (s, w2) = new_Segment (Some p0) [] (Some e) w1
            in Inr (s, set_segments p (segments w2 p @ [Some s]) w2))
      else (case last (segments w p) of
              None \<Rightarrow> Inl TypeError
            | Some l \<Rightarrow>
                (let (s, w1) = new_Segment (seg_last (segs w l)) [] (Some e) w
                 in Inr (s, set_segments p (segments w1 p @ [Some s]) w1))))"

definition AddSegment_addCurve :: "nat \<Rightarrow> nat \<Rightarrow> world \<Rightarrow> error + nat \<times> world" where
  "AddSegment_addCurve p e w =
     (let p3 = ctrls w e
      in if segments w p = []
         then (let (e0, g1) = new_EndPointControl (Fin 0) (Fin 0) (Fin 0) (ids w);
                   (c1, g2) = new_Control (x e0) (y e0 + Fin 24) g1;
                   (c2, g3) = new_Control (get_x p3) (get_y p3 - Fin 24) g2;
                   (p0, w1) = store_control (AnEndPoint e0) (w\<lparr>ids := g3\<rparr>);
                   (p1, w2) = store_control (AControl c1) w1;
                   (p2, w3) = store_control (AControl c2) w2;
                   (s, w4) = new_Segment (Some p0) [Some p1, Some p2] (Some e) w3
               in Inr (s, set_segments p (segments w4 p @ [Some s]) w4))
         else (case last (segments w p) of
                 None \<Rightarrow> Inl TypeError
               | Some l \<Rightarrow>
                   (let cs = seg_controls (segs w l)
                    in case (seg_last (segs w l),
                             if length cs < 4 then at_index cs 0 else at_index cs 2) of
                         (Some p0, Some c) \<Rightarrow>
                           (let (t, g1) = new_Control (get_x (ctrls w c)) (get_y (ctrls w c))
                                            (ids w);
                                (v1, g2) = mirror (ctrls w p0) (AControl t) g1;
                                (v2, g3) = midpoint (ctrls w p0) p3 g2;
                                (p1, w1) = store_control v1 (w\<lparr>ids := g3\<rparr>);
                                (p2, w2) = store_control v2 w1;
                                (s, w3) = new_Segment (Some p0) [Some p1, Some p2] (Some e) w2
                            in Inr (s, set_segments p (segments w3 p @ [Some s]) w3))
                       | _ \<Rightarrow> Inl TypeError)))"

subsection \<open>\<open>ConvertSegment\<close>\<close>

definition ConvertSegment_convertToLine :: "nat \<Rightarrow> world \<Rightarrow> world" where
  "ConvertSegment_convertToLine s w =
     (let cs = seg_controls (segs w s)
      in set_controls s (js_splice cs 1 (nat (int (length cs) - 2)) []) w)"

text \<open>
  \<open>p1\<close> when there is a segment before, and \<open>p2\<close> when there is a segment after: the mirror
  image of a control of the neighbour, which raises when the neighbour or that control is
  undefined.
\<close>

definition mirrored_control ::
  "world \<Rightarrow> point \<Rightarrow> ref \<Rightarrow> (nat \<Rightarrow> int) \<Rightarrow> idgen \<Rightarrow> error + point \<times> idgen" where
  "mirrored_control w centre neighbour i g =
     (case neighbour of
        None \<Rightarrow> Inl TypeError
      | Some n \<Rightarrow>
          (case at_index (seg_controls (segs w n)) (i (length (seg_controls (segs w n)))) of
             None \<Rightarrow> Inl TypeError
           | Some c \<Rightarrow> Inr (mirror centre (ctrls w c) g)))"

definition ConvertSegment_convertToCurve :: "nat \<Rightarrow> nat \<Rightarrow> world \<Rightarrow> error + world" where
  "ConvertSegment_convertToCurve p s w =
     (let ss = segments w p;
          index = indexOf ss (Some s)
      in if index = - 1 then Inr w
         else (case (seg_first (segs w s), seg_last (segs w s)) of
                 (Some p0, Some p3) \<Rightarrow>
                   (case (if 0 < index
                          then (case mirrored_control w (ctrls w p0) (at_index ss (index - 1))
                                       (\<lambda>n. int n - 2) (ids w) of
                                  Inl err \<Rightarrow> Inl err
                                | Inr (m, g) \<Rightarrow>
                                    (let (c, g') = new_Control (get_x m) (get_y m) g
                                     in Inr (AControl c, g')))
                          else Inr (midpoint (ctrls w p0) (ctrls w p3) (ids w))) of
                      Inl err \<Rightarrow> Inl err
                    | Inr (v1, g1) \<Rightarrow>
                        (case (if index + 1 < int (length ss)
                               then mirrored_control w (ctrls w p3) (at_index ss (index + 1)) (\<lambda>n. 1) g1
                               else Inr (midpoint (ctrls w p0) (ctrls w p3) g1)) of
                           Inl err \<Rightarrow> Inl err
                         | Inr (v2, g2) \<Rightarrow>
                             (let (p1, w1) = store_control v1 (w\<lparr>ids := g2\<rparr>);
                                  (p2, w2) = store_control v2 w1
                              in Inr (set_controls s [Some p0, Some p1, Some p2, Some p3] w2))))
               | _ \<Rightarrow> Inl TypeError))"

definition ConvertSegment_execute ::
  "nat \<Rightarrow> nat \<Rightarrow> SegmentVariant \<Rightarrow> world \<Rightarrow> error + command \<times> world" where
  "ConvertSegment_execute p s v w =
     (let previous = seg_controls (segs w s)
      in case (case v of LINEAR \<Rightarrow> Inr (ConvertSegment_convertToLine s w)
                       | CURVE \<Rightarrow> ConvertSegment_convertToCurve p s w) of
           Inl err \<Rightarrow> Inl err
         | Inr w' \<Rightarrow> Inr (ConvertSegment p s v previous (seg_controls (segs w' s)), w'))"

subsection \<open>\<open>SplitSegment\<close>\<close>

definition SplitSegment_execute ::
  "nat \<Rightarrow> nat \<Rightarrow> nat \<Rightarrow> bool \<Rightarrow> ref list \<Rightarrow> ref \<Rightarrow> world \<Rightarrow> error + command \<times> world" where
  "SplitSegment_execute p s pt fw nc ns w =
     (let previous = seg_controls (segs w s);
          index = indexOf (segments w p) (Some s)
      in if index = - 1 then Inr (SplitSegment p s pt fw previous nc ns, w)
         else if length previous = 2
         then (let lst = seg_last (segs w s);
                   w1 = w\<lparr>segs := (segs w)(s := seg_set_last (segs w s) (Some pt))\<rparr>;
                   (n, w2) = new_Segment (Some pt) [] lst w1;
                   w3 = set_segments p (js_splice (segments w2 p) (index + 1) 0 [Some n]) w2
               in Inr (SplitSegment p s pt True previous (seg_controls (segs w3 s)) (Some n),
                       w3))
         else if length previous = 4
         then (case (previous ! 1, previous ! 2) of
                 (Some p1, Some p2) \<Rightarrow>
                   (let (va, g1) = midpoint (ctrls w p1) (ctrls w pt) (ids w);
                        (vc, g2) = midpoint (ctrls w p2) (ctrls w pt) g1;
                        (a, w1) = store_control va (w\<lparr>ids := g2\<rparr>);
                        (c, w2) = store_control vc w1;
                        w3 = set_controls s [previous ! 0, Some p1, Some a, Some pt] w2;
                        (n, w4) = new_Segment (Some pt) [Some c, Some p2] (previous ! 3) w3;
                        w5 = set_segments p (js_splice (segments w4 p) (index + 1) 0 [Some n]) w4
                    in Inr (SplitSegment p s pt True previous (seg_controls (segs w5 s))
                              (Some n), w5))
               | _ \<Rightarrow> Inl TypeError)
         else Inr (SplitSegment p s pt True previous previous ns, w))"

definition SplitSegment_undo ::
  "nat \<Rightarrow> nat \<Rightarrow> nat \<Rightarrow> ref list \<Rightarrow> ref list \<Rightarrow> ref \<Rightarrow> world \<Rightarrow> command \<times> world" where
  "SplitSegment_undo p s pt pc nc ns w =
     (let w1 = set_controls s pc w;
          index = indexOf (segments w1 p) ns
      in (SplitSegment p s pt False pc nc ns,
          set_segments p (js_splice (segments w1 p) index 1 []) w1))"

definition SplitSegment_redo ::
  "nat \<Rightarrow> nat \<Rightarrow> nat \<Rightarrow> ref list \<Rightarrow> ref list \<Rightarrow> ref \<Rightarrow> world \<Rightarrow> command \<times> world" where
  "SplitSegment_redo p s pt pc nc ns w =
     (let index = indexOf (segments w p) (Some s);
          w1 = set_controls s nc w
      in (SplitSegment p s pt True pc nc ns,
          set_segments p (js_splice (segments w1 p) (index + 1) 0 [ns]) w1))"

subsection \<open>\<open>RemoveSegment\<close>\<close>

definition RemoveSegment_execute ::
  "nat \<Rightarrow> nat \<Rightarrow> int \<Rightarrow> ref \<Rightarrow> world \<Rightarrow> error + command \<times> world" where
  "RemoveSegment_execute p pt idx sg w =
     (let ss = segments w p
      in case find_segment (segs w) ss 0 (length ss) pt of
           Inl err \<Rightarrow> Inl err
         | Inr None \<Rightarrow> Inr (RemoveSegment p pt True idx sg, w)
         | Inr (Some (i, s, at_first)) \<Rightarrow>
             (if at_first \<and> i \<noteq> 0
              then (case at_index ss (int i - 1) of
                      None \<Rightarrow> Inl TypeError
                    | Some pv \<Rightarrow>
                        (let w1 = w\<lparr>segs := (segs w)
                                      (pv := seg_set_last (segs w pv) (seg_last (segs w s)))\<rparr>
                         in Inr (RemoveSegment p pt True (int i) (Some s),
                                 set_segments p (js_splice ss (int i) 1 []) w1)))
              else Inr (RemoveSegment p pt True (int i) (Some s),
                        set_segments p (js_splice ss (int i) 1 []) w)))"

text \<open>
  The end of \<open>undo\<close> and of \<open>redo\<close>: \<open>if (this.segment?.first === this.point && this.index > 0)\<close>,
  then \<open>prev.last\<close> is assigned \<open>segment.first\<close> by \<open>undo\<close> and \<open>segment.last\<close> by \<open>redo\<close>.
\<close>

definition RemoveSegment_reattach ::
  "nat \<Rightarrow> nat \<Rightarrow> int \<Rightarrow> ref \<Rightarrow> bool \<Rightarrow> world \<Rightarrow> error + world" where
  "RemoveSegment_reattach p pt idx sg to_first w =
     (case sg of
        None \<Rightarrow> Inr w
      | Some s \<Rightarrow>
          (if seg_first (segs w s) = Some pt \<and> 0 < idx
           then (case at_index (segments w p) (idx - 1) of
                   None \<Rightarrow> Inl TypeError
                 | Some pv \<Rightarrow>
                     Inr (w\<lparr>segs := (segs w)
                            (pv := seg_set_last (segs w pv)
                                     (if to_first then seg_first (segs w s)
                                      else seg_last (segs w s)))\<rparr>))
           else Inr w))"

definition RemoveSegment_undo ::
  "nat \<Rightarrow> nat \<Rightarrow> bool \<Rightarrow> int \<Rightarrow> ref \<Rightarrow> world \<Rightarrow> error + command \<times> world" where
  "RemoveSegment_undo p pt fw idx sg w =
     (if idx = - 1 then Inr (RemoveSegment p pt fw idx sg, w)
      else (case RemoveSegment_reattach p pt idx sg True
                   (set_segments p (js_splice (segments w p) idx 0 [sg]) w) of
              Inl err \<Rightarrow> Inl err
            | Inr w' \<Rightarrow> Inr (RemoveSegment p pt False idx sg, w')))"

definition RemoveSegment_redo ::
  "nat \<Rightarrow> nat \<Rightarrow> bool \<Rightarrow> int \<Rightarrow> ref \<Rightarrow> world \<Rightarrow> error + command \<times> world" where
  "RemoveSegment_redo p pt fw idx sg w =
     (if idx = - 1 then Inr (RemoveSegment p pt fw idx sg, w)
      else (case RemoveSegment_reattach p pt idx sg False
                   (set_segments p (js_splice (segments w p) idx 1 []) w) of
              Inl err \<Rightarrow> Inl err
            | Inr w' \<Rightarrow> Inr (RemoveSegment p pt True idx sg, w')))"

subsection \<open>The keyframe commands\<close>

definition MoveKeyframe_removeKeyframe :: "nat \<Rightarrow> KeyframePos \<Rightarrow> world \<Rightarrow> world" where
  "MoveKeyframe_removeKeyframe kf pos w =
     (let ps = speedProfiles (segs w (kp_segment pos));
          idx = indexOf ps (Some kf)
      in if idx = - 1 then w else set_profiles (kp_segment pos) (js_splice ps idx 1 []) w)"

definition MoveKeyframe_addKeyframe :: "nat \<Rightarrow> KeyframePos \<Rightarrow> world \<Rightarrow> world" where
  "MoveKeyframe_addKeyframe kf pos w =
     push_keyframe (kp_segment pos) (Some kf)
       (w\<lparr>kfs := (kfs w)(kf := (kfs w kf)\<lparr>xPos := kp_xPos pos, yPos := kp_yPos pos\<rparr>)\<rparr>)"

definition MoveKeyframe_execute ::
  "nat \<Rightarrow> KeyframePos \<Rightarrow> nat \<Rightarrow> KeyframePos option \<Rightarrow> world \<Rightarrow> error + command \<times> world" where
  "MoveKeyframe_execute p np kf op w =
     (case find_keyframe (segs w) (segments w p) kf of
        Inl err \<Rightarrow> Inl err
      | Inr None \<Rightarrow> Inr (MoveKeyframe p np kf op, MoveKeyframe_addKeyframe kf np w)
      | Inr (Some (s, idx)) \<Rightarrow>
          Inr (MoveKeyframe p np kf
                 (Some \<lparr>kp_segment = s, kp_xPos = xPos (kfs w kf), kp_yPos = yPos (kfs w kf)\<rparr>),
               MoveKeyframe_addKeyframe kf np
                 (set_profiles s (js_splice (speedProfiles (segs w s)) idx 1 []) w)))"

definition RemoveKeyframe_execute ::
  "nat \<Rightarrow> nat \<Rightarrow> ref \<Rightarrow> int \<Rightarrow> world \<Rightarrow> error + command \<times> world" where
  "RemoveKeyframe_execute p kf sg oi w =
     (case find_keyframe (segs w) (segments w p) kf of
        Inl err \<Rightarrow> Inl err
      | Inr None \<Rightarrow> Inr (RemoveKeyframe p kf sg oi, w)
      | Inr (Some (s, idx)) \<Rightarrow>
          Inr (RemoveKeyframe p kf (Some s) idx,
               set_profiles s (js_splice (speedProfiles (segs w s)) idx 1 []) w))"

subsection \<open>The three methods, by class\<close>

fun command_execute :: "command \<Rightarrow> world \<Rightarrow> error + command \<times> world" where
  "command_execute (UpdateInstancesProperties ts vals prev) w =
     (let (prev', h) = UIP_execute ts vals (props w)
      in Inr (UpdateInstancesProperties ts vals (Some prev'), w\<lparr>props := h\<rparr>))"
| "command_execute (DragControls m frm to fs) w =
     Inr (DragControls m frm to fs, Drag_execute m frm to fs w)"
| "command_execute (AddPath p fw) w = Inr (AddPath p True, w\<lparr>paths := paths w @ [p]\<rparr>)"
| "command_execute (RemovePath p i fw) w =
     (let i' = indexOf (paths w) p
      in Inr (RemovePath p i' True, w\<lparr>paths := js_splice (paths w) i' 1 []\<rparr>))"
| "command_execute (AddSegment p e v fw sg) w =
     (case (case v of LINEAR \<Rightarrow> AddSegment_addLine p e w | CURVE \<Rightarrow> AddSegment_addCurve p e w) of
        Inl err \<Rightarrow> Inl err
      | Inr (s, w') \<Rightarrow> Inr (AddSegment p e v True (Some s), w'))"
| "command_execute (ConvertSegment p s v pc nc) w = ConvertSegment_execute p s v w"
| "command_execute (SplitSegment p s pt fw pc nc ns) w = SplitSegment_execute p s pt fw nc ns w"
| "command_execute (RemoveSegment p pt fw idx sg) w = RemoveSegment_execute p pt idx sg w"
| "command_execute (AddKeyframe p pos kf) w =
     (let (k, w1) = new_Keyframe (kp_xPos pos) (kp_yPos pos) w
      in Inr (AddKeyframe p pos (Some k), push_keyframe (kp_segment pos) (Some k) w1))"
| "command_execute (MoveKeyframe p np kf op) w = MoveKeyframe_execute p np kf op w"
| "command_execute (RemoveKeyframe p kf sg oi) w = RemoveKeyframe_execute p kf sg oi w"

fun command_undo :: "command \<Rightarrow> world \<Rightarrow> error + command \<times> world" where
  "command_undo (UpdateInstancesProperties ts vals prev) w =
     (case prev of
        None \<Rightarrow> (if ts = [] then Inr (UpdateInstancesProperties ts vals None, w)
                 else Inl TypeError)
      | Some pv \<Rightarrow>
          Inr (UpdateInstancesProperties ts vals None, w\<lparr>props := UIP_undo ts pv (props w)\<rparr>))"
| "command_undo (DragControls m frm to fs) w =
     Inr (DragControls m frm to fs, Drag_undo m frm to fs w)"
| "command_undo (AddPath p fw) w =
     Inr (AddPath p False, w\<lparr>paths := js_splice (paths w) (indexOf (paths w) p) 1 []\<rparr>)"
| "command_undo (RemovePath p i fw) w =
     Inr (RemovePath p i False, w\<lparr>paths := js_splice (paths w) i 0 [p]\<rparr>)"
| "command_undo (AddSegment p e v fw sg) w =
     Inr (AddSegment p e v False sg, set_segments p (butlast (segments w p)) w)"
| "command_undo (ConvertSegment p s v pc nc) w =
     Inr (ConvertSegment p s v pc nc, set_controls s pc w)"
| "command_undo (SplitSegment p s pt fw pc nc ns) w = Inr (SplitSegment_undo p s pt pc nc ns w)"
| "command_undo (RemoveSegment p pt fw idx sg) w = RemoveSegment_undo p pt fw idx sg w"
| "command_undo (AddKeyframe p pos kf) w =
     (let ps = speedProfiles (segs w (kp_segment pos))
      in Inr (AddKeyframe p pos kf,
              set_profiles (kp_segment pos) (js_splice ps (indexOf ps kf) 1 []) w))"
| "command_undo (MoveKeyframe p np kf op) w =
     (case op of
        None \<Rightarrow> Inr (MoveKeyframe p np kf op, w)
      | Some old \<Rightarrow>
          Inr (MoveKeyframe p np kf op,
               MoveKeyframe_addKeyframe kf old (MoveKeyframe_removeKeyframe kf np w)))"
| "command_undo (RemoveKeyframe p kf sg oi) w =
     (case sg of
        None \<Rightarrow> Inr (RemoveKeyframe p kf sg oi, w)
      | Some s \<Rightarrow>
          (if oi = - 1 then Inr (RemoveKeyframe p kf sg oi, w)
           else Inr (RemoveKeyframe p kf sg oi,
                     set_profiles s (js_splice (speedProfiles (segs w s)) oi 0 [Some kf]) w)))"

fun command_redo :: "command \<Rightarrow> world \<Rightarrow> error + command \<times> world" where
  "command_redo (UpdateInstancesProperties ts vals prev) w =
     command_execute (UpdateInstancesProperties ts vals prev) w"
| "command_redo (DragControls m frm to fs) w = command_execute (DragControls m frm to fs) w"
| "command_redo (AddPath p fw) w = Inr (AddPath p True, w\<lparr>paths := paths w @ [p]\<rparr>)"
| "command_redo (RemovePath p i fw) w =
     Inr (RemovePath p i True, w\<lparr>paths := js_splice (paths w) i 1 []\<rparr>)"
| "command_redo (AddSegment p e v fw sg) w =
     Inr (AddSegment p e v True sg, set_segments p (segments w p @ [sg]) w)"
| "command_redo (ConvertSegment p s v pc nc) w =
     Inr (ConvertSegment p s v pc nc, set_controls s nc w)"
| "command_redo (SplitSegment p s pt fw pc nc ns) w = Inr (SplitSegment_redo p s pt pc nc ns w)"
| "command_redo (RemoveSegment p pt fw idx sg) w = RemoveSegment_redo p pt fw idx sg w"
| "command_redo (AddKeyframe p pos kf) w =
     Inr (AddKeyframe p pos kf, push_keyframe (kp_segment pos) kf w)"
| "command_redo (MoveKeyframe p np kf op) w =
     (case op of
        None \<Rightarrow> Inr (MoveKeyframe p np kf op, w)
      | Some old \<Rightarrow>
          Inr (MoveKeyframe p np kf op,
               MoveKeyframe_addKeyframe kf np (MoveKeyframe_removeKeyframe kf old w)))"
| "command_redo (RemoveKeyframe p kf sg oi) w =
     (case sg of
        None \<Rightarrow> Inr (RemoveKeyframe p kf sg oi, w)
      | Some s \<Rightarrow>
          (if oi = - 1 then Inr (RemoveKeyframe p kf sg oi, w)
           else Inr (RemoveKeyframe p kf sg oi,
                     set_profiles s (js_splice (speedProfiles (segs w s)) oi 1 []) w)))"

text \<open>
  \<open>this.merge(latest)\<close> on a mergeable \<open>this\<close>: the result of the call and \<open>this\<close> as the
  call leaves it. \<open>DragControls.merge\<close> reads \<open>command.followers.length\<close>, which raises
  when the other command has no followers; \<open>MoveKeyframe.merge\<close> reads \<open>command.kf\<close>, which
  is undefined, and so another object than \<open>this.kf\<close>, on a command of another class.
\<close>

fun command_merge :: "command \<Rightarrow> command \<Rightarrow> error + bool \<times> command" where
  "command_merge (UpdateInstancesProperties ts vals prev) latest =
     (case UIP_merge_loop [0 ..< length ts] latest prev vals of
        Inl e \<Rightarrow> Inl e
      | Inr (prev', vals') \<Rightarrow> Inr (True, UpdateInstancesProperties ts vals' prev'))"
| "command_merge (DragControls m frm to fs) (DragControls m' frm' to' fs') =
     (if length fs \<noteq> length fs' then Inr (False, DragControls m frm to fs)
      else if fs \<noteq> fs' then Inr (False, DragControls m frm to fs)
      else if m \<noteq> m' then Inr (False, DragControls m frm to fs)
      else Inr (True, DragControls m frm to' fs))"
| "command_merge (DragControls m frm to fs) _ = Inl TypeError"
| "command_merge (MoveKeyframe p np kf op) (MoveKeyframe p' np' kf' op') =
     (if kf' \<noteq> kf then Inr (False, MoveKeyframe p np kf op)
      else Inr (True, MoveKeyframe p np' kf op))"
| "command_merge (MoveKeyframe p np kf op) _ = Inr (False, MoveKeyframe p np kf op)"
| "command_merge c _ = Inl TypeError"

section \<open>The command history\<close>

text \<open>
  \<open>Date.now()\<close> is an argument of \<open>execute\<close>. The state is the history object together
  with the stores.
\<close>

record Execution =
  title :: string
  command :: nat
  time :: int
  mergeTimeout :: int

record CommandHistory =
  lastExecution :: "Execution option"
  history :: "nat list"
  redoHistory :: "nat list"
  savedCommand :: "nat option"

definition new_CommandHistory :: CommandHistory where
  "new_CommandHistory =
     \<lparr>lastExecution = None, history = [], redoHistory = [], savedCommand = None\<rparr>"

definition commit :: "CommandHistory \<Rightarrow> CommandHistory" where
  "commit h =
     (case lastExecution h of
        None \<Rightarrow> h
      | Some le \<Rightarrow> h\<lparr>history := history h @ [command le], lastExecution := None\<rparr>)"

text \<open>The conditions of the \<open>if\<close> in \<open>execute\<close> that come before the call of \<open>merge\<close>.\<close>

definition may_merge :: "world \<Rightarrow> Execution \<Rightarrow> Execution option \<Rightarrow> bool" where
  "may_merge w exe pending =
     (case pending of
        None \<Rightarrow> False
      | Some le \<Rightarrow>
          title exe = title le \<and>
          isMergeable (cmds w (command exe)) \<and>
          isMergeable (cmds w (command le)) \<and>
          js_typeof (cmds w (command exe)) = js_typeof (cmds w (command le)) \<and>
          time exe - time le < mergeTimeout exe)"

text \<open>The \<open>else\<close> branch, followed by the last statement of \<open>execute\<close>.\<close>

definition open_execution :: "Execution \<Rightarrow> CommandHistory \<Rightarrow> CommandHistory" where
  "open_execution exe h = (commit h)\<lparr>lastExecution := Some exe, redoHistory := []\<rparr>"

definition execute ::
  "string \<Rightarrow> nat \<Rightarrow> int \<Rightarrow> int \<Rightarrow> CommandHistory \<times> world \<Rightarrow> error + CommandHistory \<times> world" where
  "execute ttl c now timeout st =
     (case st of (h, w) \<Rightarrow>
        (case command_execute (cmds w c) w of
           Inl e \<Rightarrow> Inl e
         | Inr (c', w0) \<Rightarrow>
             (let w1 = w0\<lparr>cmds := (cmds w0)(c := c')\<rparr>;
                  exe = \<lparr>title = ttl, command = c, time = now, mergeTimeout = timeout\<rparr>
              in if may_merge w1 exe (lastExecution h)
                 then (case command_merge (cmds w1 (command (the (lastExecution h)))) (cmds w1 c) of
                         Inl e \<Rightarrow> Inl e
                       | Inr (merged, lc) \<Rightarrow>
                           (let w2 = w1\<lparr>cmds := (cmds w1)(command (the (lastExecution h)) := lc)\<rparr>
                            in if merged
                               then Inr (h\<lparr>lastExecution :=
                                             Some ((the (lastExecution h))\<lparr>time := now\<rparr>),
                                           redoHistory := []\<rparr>, w2)
                               else Inr (open_execution exe h, w2)))
                 else Inr (open_execution exe h, w1))))"

definition undo :: "CommandHistory \<times> world \<Rightarrow> error + CommandHistory \<times> world" where
  "undo st =
     (case st of (h0, w) \<Rightarrow>
        (let h = commit h0
         in if history h \<noteq> []
            then (let c = last (history h)
                  in case command_undo (cmds w c) w of
                       Inl e \<Rightarrow> Inl e
                     | Inr (c', w') \<Rightarrow>
                         Inr (h\<lparr>history := butlast (history h),
                                 redoHistory := redoHistory h @ [c]\<rparr>,
                              w'\<lparr>cmds := (cmds w')(c := c')\<rparr>))
            else Inr (h, w)))"

definition redo :: "CommandHistory \<times> world \<Rightarrow> error + CommandHistory \<times> world" where
  "redo st =
     (case st of (h, w) \<Rightarrow>
        (if redoHistory h \<noteq> []
         then (let c = last (redoHistory h)
               in case command_redo (cmds w c) w of
                    Inl e \<Rightarrow> Inl e
                  | Inr (c', w') \<Rightarrow>
                      Inr (h\<lparr>redoHistory := butlast (redoHistory h),
                              history := history h @ [c]\<rparr>,
                           w'\<lparr>cmds := (cmds w')(c := c')\<rparr>))
         else Inr (h, w)))"

definition clearHistory :: "CommandHistory \<Rightarrow> CommandHistory" where
  "clearHistory h = h\<lparr>lastExecution := None, history := [], redoHistory := [], savedCommand := None\<rparr>"

text \<open>\<open>history[history.length - 1]\<close>: undefined on an empty array.\<close>

definition top_of :: "nat list \<Rightarrow> nat option" where
  "top_of xs = (if xs = [] then None else Some (last xs))"

definition save :: "CommandHistory \<Rightarrow> CommandHistory" where
  "save h0 = (let h = commit h0 in h\<lparr>savedCommand := top_of (history h)\<rparr>)"

definition isModified :: "CommandHistory \<Rightarrow> bool \<times> CommandHistory" where
  "isModified h0 = (let h = commit h0 in (savedCommand h \<noteq> top_of (history h), h))"

section \<open>Notions used in the statements\<close>

text \<open>The default precision of \<open>fixPrecision\<close> in the class of a point: 2 in
  \<open>EndPointControl\<close>, 3 in \<open>Vertex\<close>, which \<open>Knot\<close> and \<open>Control\<close> inherit.\<close>

definition precision :: "point \<Rightarrow> nat" where
  "precision v = (case v of AnEndPoint _ \<Rightarrow> 2 | _ \<Rightarrow> 3)"

text \<open>A number that is not negative: a finite number from 0 on, the positive infinity, or NaN.\<close>

definition not_negative :: "number \<Rightarrow> bool" where
  "not_negative a = (\<not> a < Fin 0)"

fun is_Fin :: "number \<Rightarrow> bool" where
  "is_Fin (Fin _) = True"
| "is_Fin _ = False"

text \<open>A knot whose coordinates, spacing and travelled distance are finite numbers.\<close>

definition finite_knot :: "Knot \<Rightarrow> bool" where
  "finite_knot k = (is_Fin (x k) \<and> is_Fin (y k) \<and> is_Fin (delta k) \<and> is_Fin (integral k))"

text \<open>The speed of a knot lies between \<open>speedLimit.from\<close> and \<open>speedLimit.to\<close>.\<close>

definition speed_within :: "SpeedConfig \<Rightarrow> Knot \<Rightarrow> bool" where
  "speed_within sc k =
     (range_from (speedLimit sc) \<le> speed k \<and> speed k \<le> range_to (speedLimit sc))"

text \<open>The knots to which \<open>calculateSpeed\<close> gives the speed of its third branch,
  \<open>speedLimit.from + (delta - applicationRange.from) * applicationRatio\<close>: the spacing is
  not 0 and lies in the application range, and the ratio is in use.\<close>

definition interpolated :: "SpeedConfig \<Rightarrow> Knot \<Rightarrow> bool" where
  "interpolated sc k =
     (let speedDiff = range_to (speedLimit sc) - range_from (speedLimit sc);
          applicationDiff = range_to (applicationRange sc) - range_from (applicationRange sc);
          useRatio = (strict_ne speedDiff (Fin 0) \<and> strict_ne applicationDiff (Fin 0));
          d = delta k
      in \<not> (d < range_from (applicationRange sc) \<and> strict_ne d (Fin 0))
         \<and> \<not> range_to (applicationRange sc) < d
         \<and> useRatio \<and> strict_ne d (Fin 0))"

text \<open>The speed of a knot is a finite number, not below \<open>speedLimit.from\<close>, and not above
  \<open>speedLimit.to\<close> unless the knot is an interpolated one.\<close>

definition speed_kept :: "SpeedConfig \<Rightarrow> Knot \<Rightarrow> bool" where
  "speed_kept sc k =
     (is_Fin (speed k) \<and> range_from (speedLimit sc) \<le> speed k
      \<and> (interpolated sc k \<or> speed k \<le> range_to (speedLimit sc)))"

text \<open>What the second pass hands to \<open>calculateSpeed\<close>: a knot with a finite spacing, at a
  travelled distance from 0 up to, and less than, the total.\<close>

definition resampled :: "number \<Rightarrow> Knot \<Rightarrow> bool" where
  "resampled pathTTD p = (is_Fin (delta p) \<and> Fin 0 \<le> integral p \<and> integral p < pathTTD)"

text \<open>The first step of \<open>calculateSpeed\<close>: the speed from the application range alone.\<close>

definition base_speed :: "SpeedConfig \<Rightarrow> number \<Rightarrow> number" where
  "base_speed sc d =
     (let speedDiff = range_to (speedLimit sc) - range_from (speedLimit sc);
          applicationDiff = range_to (applicationRange sc) - range_from (applicationRange sc);
          useRatio = (strict_ne speedDiff (Fin 0) \<and> strict_ne applicationDiff (Fin 0));
          applicationRatio = speedDiff / applicationDiff
      in if d < range_from (applicationRange sc) \<and> strict_ne d (Fin 0)
         then range_from (speedLimit sc)
         else if range_to (applicationRange sc) < d
         then range_to (speedLimit sc)
         else if useRatio \<and> strict_ne d (Fin 0)
         then range_from (speedLimit sc) + (d - range_from (applicationRange sc)) * applicationRatio
         else range_to (speedLimit sc))"

subsection \<open>Example paths\<close>

text \<open>
  Three end points A = (0, 0), B = (300, 0) and C = (300, 400), a path of the two lines
  from A to B and from B to C, a knot density of 200 in centimetres, and a speed
  configuration whose transition range is the whole path, from 0 to 1.
\<close>

definition ex_A :: point where
  "ex_A = AnEndPoint \<lparr>x = Fin 0, y = Fin 0, uid = 0, lock = False, visible = True,
                      ep_heading = Fin 0\<rparr>"

definition ex_B :: point where
  "ex_B = AnEndPoint \<lparr>x = Fin 300, y = Fin 0, uid = 1, lock = False, visible = True,
                      ep_heading = Fin 90\<rparr>"

definition ex_C :: point where
  "ex_C = AnEndPoint \<lparr>x = Fin 300, y = Fin 400, uid = 2, lock = False, visible = True,
                      ep_heading = Fin 180\<rparr>"

definition ex_AB :: Spline where
  "ex_AB = \<lparr>controls = [ex_A, ex_B], spline_uid = 3\<rparr>"

definition ex_BC :: Spline where
  "ex_BC = \<lparr>controls = [ex_B, ex_C], spline_uid = 4\<rparr>"

definition ex_path :: Path where
  "ex_path = \<lparr>splines = [ex_AB, ex_BC], name = ''Path'', path_uid = 5, path_lock = False,
              path_visible = True, cachedKnots = []\<rparr>"

definition ex_gc :: GeneralConfig where
  "ex_gc = \<lparr>knotDensity = Fin 200, toCentimeter = (\<lambda>a. a)\<rparr>"

definition ex_sc :: SpeedConfig where
  "ex_sc = \<lparr>speedLimit = \<lparr>range_from = Fin 30, range_to = Fin 100\<rparr>,
            applicationRange = \<lparr>range_from = Fin (14 / 10), range_to = Fin (18 / 10)\<rparr>,
            transitionRange = \<lparr>range_from = Fin 0, range_to = Fin 1\<rparr>\<rparr>"

text \<open>The knots of the first pass on this path.\<close>

definition ex_gen1 :: "Knot list" where
  "ex_gen1 = [new_Knot (Fin 0) (Fin 0) (Fin 0) (Fin 0) (Fin 0) (Some (Fin 0)),
              new_Knot (Fin 300) (Fin 0) (Fin 200) (Fin 300) (Fin 0) None,
              new_Knot (Fin 300) (Fin 0) (Fin 0) (Fin 300) (Fin 0) (Some (Fin 90)),
              new_Knot (Fin 300) (Fin 400) (Fin 200) (Fin 700) (Fin 0) None,
              new_Knot (Fin 300) (Fin 400) (Fin 0) (Fin 700) (Fin 0) (Some (Fin 180))]"

text \<open>
  A path that starts with a line of length zero: both ends of its first line are at
  A' = (0, 0), and its second line goes from there to C' = (4, 0).
\<close>

definition ex_A' :: point where
  "ex_A' = AnEndPoint \<lparr>x = Fin 0, y = Fin 0, uid = 6, lock = False, visible = True,
                       ep_heading = Fin 90\<rparr>"

definition ex_C' :: point where
  "ex_C' = AnEndPoint \<lparr>x = Fin 4, y = Fin 0, uid = 7, lock = False, visible = True,
                       ep_heading = Fin 180\<rparr>"

definition ex_AA :: Spline where
  "ex_AA = \<lparr>controls = [ex_A, ex_A'], spline_uid = 8\<rparr>"

definition ex_AC :: Spline where
  "ex_AC = \<lparr>controls = [ex_A', ex_C'], spline_uid = 9\<rparr>"

definition ex_point_path :: Path where
  "ex_point_path = \<lparr>splines = [ex_AA], name = ''Path'', path_uid = 10, path_lock = False,
                    path_visible = True, cachedKnots = []\<rparr>"

text \<open>
  A path with a line of length zero in the middle: from A to B, from B to B' = (300, 0),
  and from B' to C.
\<close>

definition ex_B' :: point where
  "ex_B' = AnEndPoint \<lparr>x = Fin 300, y = Fin 0, uid = 11, lock = False, visible = True,
                       ep_heading = Fin 45\<rparr>"

definition ex_BB :: Spline where
  "ex_BB = \<lparr>controls = [ex_B, ex_B'], spline_uid = 12\<rparr>"

definition ex_B'C :: Spline where
  "ex_B'C = \<lparr>controls = [ex_B', ex_C], spline_uid = 13\<rparr>"

definition ex_stop_path :: Path where
  "ex_stop_path = \<lparr>splines = [ex_AB, ex_BB, ex_B'C], name = ''Path'', path_uid = 14,
                   path_lock = False, path_visible = True, cachedKnots = []\<rparr>"

subsection \<open>Example histories\<close>

text \<open>A world with no paths in which every command object is an \<open>AddPath\<close> of path 7 that
  has not run.\<close>

definition ex_world :: world where
  "ex_world = \<lparr>props = (\<lambda>r. Map.empty), ctrls = (\<lambda>r. ex_A), paths = [],
               cmds = (\<lambda>r. AddPath 7 False), ids = 100,
      segments = (\<lambda>r. []), segs = (\<lambda>r. \<lparr>seg_controls = [], speedProfiles = [], seg_uid = 0\<rparr>),
      kfs = (\<lambda>r. \<lparr>xPos = Fin 0, yPos = Fin 0\<rparr>), fresh = 100\<rparr>"

text \<open>A world whose array of paths holds path 10; the command object \<open>r\<close> is an \<open>AddPath\<close> of
  path \<open>10 + r\<close>, and only the command object 0 has run.\<close>

definition ex_paths_world :: world where
  "ex_paths_world = \<lparr>props = (\<lambda>r. Map.empty), ctrls = (\<lambda>r. ex_A), paths = [10],
                     cmds = (\<lambda>r. AddPath (10 + r) (r = 0)), ids = 100,
      segments = (\<lambda>r. []), segs = (\<lambda>r. \<lparr>seg_controls = [], speedProfiles = [], seg_uid = 0\<rparr>),
      kfs = (\<lambda>r. \<lparr>xPos = Fin 0, yPos = Fin 0\<rparr>), fresh = 100\<rparr>"

text \<open>A history in which command 0 is done and command 1 has been undone; the history and
  the world after \<open>save()\<close> and then \<open>execute("Add path", c2)\<close> at time 1000.\<close>

definition ex_history_undone :: CommandHistory where
  "ex_history_undone =
     \<lparr>lastExecution = None, history = [0], redoHistory = [1], savedCommand = None\<rparr>"

definition ex_history_after :: CommandHistory where
  "ex_history_after =
     \<lparr>lastExecution =
        Some \<lparr>title = ''Add path'', command = 2, time = 1000, mergeTimeout = 500\<rparr>,
      history = [0], redoHistory = [], savedCommand = Some 0\<rparr>"

definition ex_paths_world_after :: world where
  "ex_paths_world_after =
     ex_paths_world\<lparr>paths := [10, 12], cmds := (cmds ex_paths_world)(2 := AddPath 12 True)\<rparr>"

subsection \<open>Notions used in the statements on commands\<close>

text \<open>A finite number with at most \<open>p\<close> digits after the decimal point.\<close>

definition on_grid :: "nat \<Rightarrow> number \<Rightarrow> bool" where
  "on_grid p a = (case a of Fin r \<Rightarrow> real_of_int \<lfloor>r * 10 ^ p\<rfloor> = r * 10 ^ p | _ \<Rightarrow> False)"

text \<open>A point whose class rounds to at least \<open>p\<close> digits and whose coordinates have at
  most \<open>p\<close> digits.\<close>

definition grid_point :: "nat \<Rightarrow> point \<Rightarrow> bool" where
  "grid_point p v = (p \<le> precision v \<and> on_grid p (get_x v) \<and> on_grid p (get_y v))"

text \<open>A point that \<open>fixPrecision\<close> leaves as it is.\<close>

definition at_rest :: "point \<Rightarrow> bool" where
  "at_rest v = (fixPrecision v = v)"

text \<open>The point \<open>v\<close> with other coordinates.\<close>

definition place :: "point \<Rightarrow> number \<Rightarrow> number \<Rightarrow> point" where
  "place v a b = set_y (set_x v a) b"

text \<open>In the store \<open>H\<close>, each control of \<open>S\<close> is the point \<open>c r\<close>, which is at rest, at the
  grid coordinates \<open>(X r, Y r)\<close>.\<close>

definition placed ::
  "nat \<Rightarrow> (nat \<Rightarrow> point) \<Rightarrow> (nat \<Rightarrow> real) \<Rightarrow> (nat \<Rightarrow> real) \<Rightarrow> nat set \<Rightarrow> (nat \<Rightarrow> point) \<Rightarrow> bool" where
  "placed p c X Y S H =
     (\<forall>r \<in> S. at_rest (c r) \<and> p \<le> precision (c r)
              \<and> on_grid p (Fin (X r)) \<and> on_grid p (Fin (Y r))
              \<and> H r = place (c r) (Fin (X r)) (Fin (Y r)))"

text \<open>One coordinate of every control after a drag from \<open>f\<close> to \<open>t\<close>: the main control \<open>m\<close>
  is at \<open>t\<close>, and a follower has moved by \<open>t - f\<close> once for each time it stands in \<open>fs\<close>.\<close>

definition shifted :: "nat list \<Rightarrow> nat \<Rightarrow> real \<Rightarrow> real \<Rightarrow> (nat \<Rightarrow> real) \<Rightarrow> nat \<Rightarrow> real" where
  "shifted fs m t f X = (\<lambda>r. if r = m then t else X r + real (count_list fs r) * (t - f))"

definition the_real :: "number \<Rightarrow> real" where
  "the_real a = (case a of Fin r \<Rightarrow> r | _ \<Rightarrow> 0)"

text \<open>What reading any property of any object of a store returns.\<close>

definition reads :: "(nat \<Rightarrow> object) \<Rightarrow> nat \<Rightarrow> string \<Rightarrow> jsvalue" where
  "reads h = (\<lambda>t key. get_prop (h t) key)"

text \<open>A reference to a segment that has 2 or 4 controls, none of them undefined.\<close>

fun typed_segment :: "world \<Rightarrow> ref \<Rightarrow> bool" where
  "typed_segment w None = False"
| "typed_segment w (Some s) =
     ((length (seg_controls (segs w s)) = 2 \<or> length (seg_controls (segs w s)) = 4)
      \<and> None \<notin> set (seg_controls (segs w s)))"

text \<open>A reference to an object that exists: its address is below the next address that
  \<open>new\<close> gives out.\<close>

fun allocated :: "world \<Rightarrow> ref \<Rightarrow> bool" where
  "allocated w None = False"
| "allocated w (Some a) = (a < fresh w)"

text \<open>In an array of segments, every segment whose first control is the point \<open>pt\<close> comes
  after a segment whose last control is \<open>pt\<close>, or is the first of the array.\<close>

definition joined_at :: "world \<Rightarrow> ref list \<Rightarrow> nat \<Rightarrow> bool" where
  "joined_at w ss pt =
     (\<forall>i \<in> {1 ..< length ss}.
        case (ss ! (i - 1), ss ! i) of
          (Some a, Some b) \<Rightarrow>
            seg_first (segs w b) = Some pt \<longrightarrow> seg_last (segs w a) = Some pt
        | _ \<Rightarrow> True)"

text \<open>An array of keyframes, none undefined, whose \<open>xPos\<close> are finite numbers in ascending
  order.\<close>

definition key_of :: "(nat \<Rightarrow> Keyframe) \<Rightarrow> ref \<Rightarrow> real" where
  "key_of k r = (case r of None \<Rightarrow> 0 | Some a \<Rightarrow> the_real (xPos (k a)))"

definition ascending :: "(nat \<Rightarrow> Keyframe) \<Rightarrow> ref list \<Rightarrow> bool" where
  "ascending k rs =
     (None \<notin> set rs \<and> (\<forall>r \<in> set rs. case r of None \<Rightarrow> True | Some a \<Rightarrow> is_Fin (xPos (k a)))
      \<and> sorted (map (key_of k) rs))"

text \<open>
  The states in which a command is run for the round trip below.

  A property update names no target twice. A drag starts where the main control is;
  \<open>from\<close>, \<open>to\<close>, the main control and the followers have coordinates of at most \<open>p\<close> digits,
  where no class among them rounds to fewer than \<open>p\<close> digits, and the controls are at rest.
  A path that is added is not in the array yet, and a path that is removed is in the
  array.

  A segment is added to a path that is empty or whose last segment has 2 or 4 controls.
  A segment is converted to a curve in a path whose segments have 2 or 4 controls. A
  segment that is split is in the path and has 2 or 4 controls, and the segments of the
  path exist when the command is run. The point of a segment that is removed is, in a path
  with no undefined segment, the last control of the segment before each segment that
  starts at it.

  A keyframe is added at a finite \<open>xPos\<close> to a segment whose keyframes exist when the command
  is run and are in ascending order. A keyframe is moved to a finite \<open>xPos\<close>, in a path with
  no undefined segment; the first segment of the path that holds it has its keyframes in
  ascending order, none of those after it with the same \<open>xPos\<close>; the segment it moves to,
  where this is another one, has its keyframes in ascending order and does not hold it. A
  keyframe is removed from a path with no undefined segment.
\<close>

fun round_trip_ready :: "nat \<Rightarrow> command \<Rightarrow> world \<Rightarrow> bool" where
  "round_trip_ready p (UpdateInstancesProperties ts vals pv) w = distinct ts"
| "round_trip_ready p (DragControls m frm to fs) w =
     (grid_point p frm \<and> grid_point p to
      \<and> (\<forall>r \<in> set (m # fs). at_rest (ctrls w r) \<and> grid_point p (ctrls w r))
      \<and> get_x (ctrls w m) = get_x frm \<and> get_y (ctrls w m) = get_y frm)"
| "round_trip_ready p (AddPath q fw) w = (q \<notin> set (paths w))"
| "round_trip_ready p (RemovePath q i fw) w = (q \<in> set (paths w))"
| "round_trip_ready p (AddSegment q e v fw sg) w =
     (segments w q = [] \<or> typed_segment w (last (segments w q)))"
| "round_trip_ready p (ConvertSegment q s v pc nc) w =
     (v = CURVE \<longrightarrow> (\<forall>r \<in> set (segments w q). typed_segment w r))"
| "round_trip_ready p (SplitSegment q s pt fw pc nc ns) w =
     (Some s \<in> set (segments w q) \<and> typed_segment w (Some s)
      \<and> (\<forall>r \<in> set (segments w q). allocated w r))"
| "round_trip_ready p (RemoveSegment q pt fw idx sg) w =
     (idx = - 1 \<and> None \<notin> set (segments w q) \<and> joined_at w (segments w q) pt)"
| "round_trip_ready p (AddKeyframe q pos kf) w =
     (is_Fin (kp_xPos pos)
      \<and> ascending (kfs w) (speedProfiles (segs w (kp_segment pos)))
      \<and> (\<forall>r \<in> set (speedProfiles (segs w (kp_segment pos))). allocated w r))"
| "round_trip_ready p (MoveKeyframe q np kf op) w =
     (is_Fin (kp_xPos np) \<and> None \<notin> set (segments w q)
      \<and> (case find_keyframe (segs w) (segments w q) kf of
           Inr (Some (s, i)) \<Rightarrow>
             ascending (kfs w) (speedProfiles (segs w s))
             \<and> (\<forall>r \<in> set (drop (nat i + 1) (speedProfiles (segs w s))).
                  key_of (kfs w) r \<noteq> key_of (kfs w) (Some kf))
             \<and> (kp_segment np \<noteq> s \<longrightarrow>
                  ascending (kfs w) (speedProfiles (segs w (kp_segment np)))
                  \<and> Some kf \<notin> set (speedProfiles (segs w (kp_segment np))))
         | _ \<Rightarrow> False))"
| "round_trip_ready p (RemoveKeyframe q kf sg oi) w = (oi = - 1 \<and> None \<notin> set (segments w q))"

text \<open>Two worlds in which every property reads the same, and the controls and the array of
  paths are the same.\<close>

definition same_state :: "world \<Rightarrow> world \<Rightarrow> bool" where
  "same_state w w' =
     (reads (props w) = reads (props w') \<and> ctrls w = ctrls w' \<and> paths w = paths w')"

text \<open>Two worlds that are moreover the same in the segments of every path, in every segment
  and in every keyframe.\<close>

definition same_world :: "world \<Rightarrow> world \<Rightarrow> bool" where
  "same_world w w' =
     (same_state w w' \<and> segments w = segments w' \<and> segs w = segs w' \<and> kfs w = kfs w')"

text \<open>From \<open>w\<close> to \<open>w'\<close> objects have been created, and every other control, segment and keyframe
  is the same.\<close>

definition untouched :: "world \<Rightarrow> world \<Rightarrow> bool" where
  "untouched w w' =
     (fresh w \<le> fresh w'
      \<and> (\<forall>a. a < fresh w \<or> fresh w' \<le> a \<longrightarrow>
             ctrls w' a = ctrls w a \<and> segs w' a = segs w a \<and> kfs w' a = kfs w a))"

text \<open>The world \<open>w'\<close> is \<open>w\<close> again, but for the objects created in between: every property
  reads the same, the array of paths and the segments of every path are the same, and so
  is every control, segment and keyframe that was not created in between.\<close>

definition restored :: "world \<Rightarrow> world \<Rightarrow> bool" where
  "restored w' w =
     (reads (props w') = reads (props w) \<and> paths w' = paths w \<and> segments w' = segments w
      \<and> untouched w w')"

subsection \<open>Example commands\<close>

text \<open>A world in which every object has the property \<open>lock\<close> set to false, control 1 is a
  \<open>Control\<close> at (1, 2) and every other control an \<open>EndPointControl\<close> at (3, 4).\<close>

definition ex_editor :: world where
  "ex_editor =
     \<lparr>props = (\<lambda>r. [''lock'' \<mapsto> JBool False]),
      ctrls = (\<lambda>r. if r = 1
                   then AControl \<lparr>x = Fin 1, y = Fin 2, uid = 1, lock = False, visible = True\<rparr>
                   else AnEndPoint \<lparr>x = Fin 3, y = Fin 4, uid = 2, lock = False, visible = True,
                                    ep_heading = Fin 90\<rparr>),
      paths = [], cmds = (\<lambda>r. AddPath 7 False), ids = 100,
      segments = (\<lambda>r. []), segs = (\<lambda>r. \<lparr>seg_controls = [], speedProfiles = [], seg_uid = 0\<rparr>),
      kfs = (\<lambda>r. \<lparr>xPos = Fin 0, yPos = Fin 0\<rparr>), fresh = 100\<rparr>"

text \<open>Control 1 dragged from (1, 2) to (5, 7), with control 2 following.\<close>

definition ex_drag :: command where
  "ex_drag = DragControls 1 (AVertex (new_Vertex (Fin 1) (Fin 2)))
                            (AVertex (new_Vertex (Fin 5) (Fin 7))) [2]"

text \<open>\<open>lock\<close> set to true on the objects 1 and 2, and on the object 1 named twice.\<close>

definition ex_update :: command where
  "ex_update = UpdateInstancesProperties [1, 2] [''lock'' \<mapsto> JBool True] None"

definition ex_update_twice :: command where
  "ex_update_twice = UpdateInstancesProperties [1, 1] [''lock'' \<mapsto> JBool True] None"

text \<open>\<open>execute(); undo()\<close> on the latter, then \<open>lock\<close> of object 1 read.\<close>

definition ex_update_twice_undone :: "error + jsvalue" where
  "ex_update_twice_undone =
     and_then (command_execute ex_update_twice ex_editor) (\<lambda>(c1, w1).
     and_then (command_undo c1 w1) (\<lambda>(c2, w2).
     Inr (get_prop (props w2 1) ''lock'')))"

text \<open>
  The example world with a path 0 of two segments: segment 10 from control 2 to control 3,
  with the keyframes 20 and 21, both at \<open>xPos\<close> 0.5, and segment 11 from control 3 to
  control 4, with no keyframe.
\<close>

definition ex_track :: world where
  "ex_track =
     ex_editor\<lparr>segments := (\<lambda>q. if q = 0 then [Some 10, Some 11] else []),
       segs := (\<lambda>s. if s = 10
                    then \<lparr>seg_controls = [Some 2, Some 3], speedProfiles = [Some 20, Some 21],
                          seg_uid = 10\<rparr>
                    else if s = 11
                    then \<lparr>seg_controls = [Some 3, Some 4], speedProfiles = [], seg_uid = 11\<rparr>
                    else \<lparr>seg_controls = [], speedProfiles = [], seg_uid = 0\<rparr>),
       kfs := (\<lambda>k. if k = 20 then \<lparr>xPos = Fin (1 / 2), yPos = Fin 1\<rparr>
                   else if k = 21 then \<lparr>xPos = Fin (1 / 2), yPos = Fin (1 / 2)\<rparr>
                   else \<lparr>xPos = Fin 0, yPos = Fin 0\<rparr>)\<rparr>"

text \<open>The keyframe 21, and the keyframe 20, moved to \<open>xPos\<close> 0.25 of segment 11; segment 10
  split at control 5; each command as its constructor leaves it.\<close>

definition ex_move_last :: command where
  "ex_move_last = MoveKeyframe 0 \<lparr>kp_segment = 11, kp_xPos = Fin (1 / 4), kp_yPos = Fin 1\<rparr> 21 None"

definition ex_move_first :: command where
  "ex_move_first = MoveKeyframe 0 \<lparr>kp_segment = 11, kp_xPos = Fin (1 / 4), kp_yPos = Fin 1\<rparr> 20 None"

definition ex_split :: command where
  "ex_split = SplitSegment 0 10 5 True [] [] None"

text \<open>\<open>execute(); undo()\<close> on the move of keyframe 20, then the keyframes of the segments 10
  and 11 read.\<close>

definition ex_move_first_undone :: "error + ref list \<times> ref list" where
  "ex_move_first_undone =
     and_then (command_execute ex_move_first ex_track) (\<lambda>(c1, w1).
     and_then (command_undo c1 w1) (\<lambda>(c2, w2).
     Inr (speedProfiles (segs w2 10), speedProfiles (segs w2 11))))"

text \<open>A split of segment 12, which is not in path 0: \<open>execute(); undo()\<close>, then the segments
  of the path read.\<close>

definition ex_split_absent_undone :: "error + ref list" where
  "ex_split_absent_undone =
     and_then (command_execute (SplitSegment 0 12 5 True [] [] None) ex_track) (\<lambda>(c1, w1).
     and_then (command_undo c1 w1) (\<lambda>(c2, w2).
     Inr (segments w2 0)))"

subsection \<open>Notions used in the statements on merging\<close>

text \<open>
  The pairs of commands, the first pending and the second new, for the merge law below.
  Two drags of the same main control with the same followers, the second starting where
  the first ended, whose points and controls are as in \<open>round_trip_ready\<close>; two property
  updates with the same array of targets, which names no target twice.
\<close>

text \<open>Two commands of the same class.\<close>

fun same_kind :: "command \<Rightarrow> command \<Rightarrow> bool" where
  "same_kind (UpdateInstancesProperties _ _ _) d =
     (case d of UpdateInstancesProperties _ _ _ \<Rightarrow> True | _ \<Rightarrow> False)"
| "same_kind (AddSegment _ _ _ _ _) d = (case d of AddSegment _ _ _ _ _ \<Rightarrow> True | _ \<Rightarrow> False)"
| "same_kind (ConvertSegment _ _ _ _ _) d =
     (case d of ConvertSegment _ _ _ _ _ \<Rightarrow> True | _ \<Rightarrow> False)"
| "same_kind (SplitSegment _ _ _ _ _ _ _) d =
     (case d of SplitSegment _ _ _ _ _ _ _ \<Rightarrow> True | _ \<Rightarrow> False)"
| "same_kind (RemoveSegment _ _ _ _ _) d =
     (case d of RemoveSegment _ _ _ _ _ \<Rightarrow> True | _ \<Rightarrow> False)"
| "same_kind (DragControls _ _ _ _) d = (case d of DragControls _ _ _ _ \<Rightarrow> True | _ \<Rightarrow> False)"
| "same_kind (AddKeyframe _ _ _) d = (case d of AddKeyframe _ _ _ \<Rightarrow> True | _ \<Rightarrow> False)"
| "same_kind (MoveKeyframe _ _ _ _) d = (case d of MoveKeyframe _ _ _ _ \<Rightarrow> True | _ \<Rightarrow> False)"
| "same_kind (RemoveKeyframe _ _ _ _) d = (case d of RemoveKeyframe _ _ _ _ \<Rightarrow> True | _ \<Rightarrow> False)"
| "same_kind (AddPath _ _) d = (case d of AddPath _ _ \<Rightarrow> True | _ \<Rightarrow> False)"
| "same_kind (RemovePath _ _ _) d = (case d of RemovePath _ _ _ \<Rightarrow> True | _ \<Rightarrow> False)"

fun merge_ready :: "nat \<Rightarrow> command \<Rightarrow> command \<Rightarrow> world \<Rightarrow> bool" where
  "merge_ready p (DragControls m f t fs) d w =
     (case d of
        DragControls m' f' t' fs' \<Rightarrow>
          (m' = m \<and> fs' = fs \<and> get_x f' = get_x t \<and> get_y f' = get_y t
           \<and> grid_point p f \<and> grid_point p t \<and> grid_point p f' \<and> grid_point p t'
           \<and> (\<forall>r \<in> set (m # fs). at_rest (ctrls w r) \<and> grid_point p (ctrls w r))
           \<and> get_x (ctrls w m) = get_x f \<and> get_y (ctrls w m) = get_y f)
      | _ \<Rightarrow> False)"
| "merge_ready p (UpdateInstancesProperties ts va pa) d w =
     (case d of
        UpdateInstancesProperties ts' vb pb \<Rightarrow> (ts' = ts \<and> distinct ts)
      | _ \<Rightarrow> False)"
| "merge_ready p _ _ w = False"

subsection \<open>Example merges\<close>

text \<open>The example world with seven kinds of command objects: updates of \<open>lock\<close> on object 1,
  on object 2 and on no object, the example drag, the example update of two objects, an
  update of \<open>visible\<close> on the same two objects, and a drag that goes on from (5, 7) to
  (6, 8).\<close>

definition ex_merge_world :: world where
  "ex_merge_world = ex_editor\<lparr>cmds := (\<lambda>r.
       if r = 0 then UpdateInstancesProperties [1] [''lock'' \<mapsto> JBool True] None
       else if r = 1 then UpdateInstancesProperties [2] [''lock'' \<mapsto> JBool True] None
       else if r = 2 then UpdateInstancesProperties [] [''lock'' \<mapsto> JBool True] None
       else if r = 3 then ex_drag
       else if r = 4 then ex_update
       else if r = 5 then UpdateInstancesProperties [1, 2] [''visible'' \<mapsto> JBool False] None
       else DragControls 1 (AVertex (new_Vertex (Fin 5) (Fin 7)))
                           (AVertex (new_Vertex (Fin 6) (Fin 8))) [2])\<rparr>"

text \<open>A history whose pending entry holds the example drag.\<close>

definition ex_drag_entry :: Execution where
  "ex_drag_entry = \<lparr>title = ''Drag'', command = 3, time = 0, mergeTimeout = 500\<rparr>"

definition ex_dragging :: CommandHistory where
  "ex_dragging = new_CommandHistory\<lparr>lastExecution := Some ex_drag_entry\<rparr>"

text \<open>\<open>execute("Lock", c0); execute("Lock", c1); undo()\<close>, the second call 100 ms after the
  first: the history once the second call is committed, the history after \<open>undo\<close>, and
  \<open>lock\<close> of the objects 1 and 2 after \<open>undo\<close>.\<close>

definition ex_two_updates_undone :: "error + nat list \<times> nat list \<times> jsvalue \<times> jsvalue" where
  "ex_two_updates_undone =
     and_then (execute ''Lock'' 0 0 500 (new_CommandHistory, ex_merge_world)) (\<lambda>(h1, w1).
     and_then (execute ''Lock'' 1 100 500 (h1, w1)) (\<lambda>(h2, w2).
     and_then (undo (h2, w2)) (\<lambda>(h3, w3).
     Inr (history (commit h2), history h3,
          get_prop (props w3 1) ''lock'', get_prop (props w3 2) ''lock''))))"

text \<open>\<open>execute("Edit", c2); execute("Edit", c3)\<close>, an update of no object and then a drag: the
  history once the second call is committed.\<close>

definition ex_update_then_drag :: "error + nat list" where
  "ex_update_then_drag =
     and_then (execute ''Edit'' 2 0 500 (new_CommandHistory, ex_merge_world)) (\<lambda>(h1, w1).
     and_then (execute ''Edit'' 3 100 500 (h1, w1)) (\<lambda>(h2, w2).
     Inr (history (commit h2))))"

text \<open>A drag from (0, 0) to (0.005, 0).\<close>

definition ex_fine_drag_from :: point where
  "ex_fine_drag_from = AVertex (new_Vertex (Fin 0) (Fin 0))"

definition ex_fine_drag_to :: point where
  "ex_fine_drag_to = AVertex (new_Vertex (Fin (5 / 1000)) (Fin 0))"

text \<open>In the world \<open>ex_world\<close>, whose controls are all at (0, 0): control 1 dragged along it,
  with control 2 following; \<open>execute(); undo()\<close>, then \<open>x\<close> of control 2 read.\<close>

definition ex_fine_drag :: command where
  "ex_fine_drag = DragControls 1 ex_fine_drag_from ex_fine_drag_to [2]"

definition ex_fine_drag_undone :: "error + number" where
  "ex_fine_drag_undone =
     and_then (command_execute ex_fine_drag ex_world) (\<lambda>(c1, w1).
     and_then (command_undo c1 w1) (\<lambda>(c2, w2).
     Inr (get_x (ctrls w2 2))))"


section \<open>Points: rounding and identifiers\<close>

lemma get_x_set_x [simp]: "get_x (set_x v a) = a"
  by (cases v) simp_all

lemma get_y_set_y [simp]: "get_y (set_y v a) = a"
  by (cases v) simp_all

lemma get_x_set_y [simp]: "get_x (set_y v a) = get_x v"
  by (cases v) simp_all

lemma get_y_set_x [simp]: "get_y (set_x v a) = get_y v"
  by (cases v) simp_all

lemma precision_set_x [simp]: "precision (set_x v a) = precision v"
  by (cases v) (simp_all add: precision_def)

lemma precision_set_y [simp]: "precision (set_y v a) = precision v"
  by (cases v) (simp_all add: precision_def)

lemma get_heading_set_x [simp]: "get_heading (set_x v a) = get_heading v"
  by (cases v) simp_all

lemma get_heading_set_y [simp]: "get_heading (set_y v a) = get_heading v"
  by (cases v) simp_all

lemmas constructor_defs =
  new_Vertex_def new_Knot_def new_Control_def new_EndPointControl_def makeId_def

lemma clone_x [simp]: "get_x (fst (clone v g)) = get_x v"
  by (cases v) (simp_all add: constructor_defs)

lemma clone_y [simp]: "get_y (fst (clone v g)) = get_y v"
  by (cases v) (simp_all add: constructor_defs)

lemma clone_precision [simp]: "precision (fst (clone v g)) = precision v"
  by (cases v) (simp_all add: precision_def constructor_defs)

lemma clone_heading [simp]: "get_heading (fst (clone v g)) = get_heading v"
  by (cases v) (simp_all add: constructor_defs)

lemma fixPrecision_x: "get_x (fixPrecision v) = toFixed (precision v) (get_x v)"
  by (cases v)
     (simp_all add: precision_def Vertex_fixPrecision_def EndPointControl_fixPrecision_def Let_def)

lemma fixPrecision_y: "get_y (fixPrecision v) = toFixed (precision v) (get_y v)"
  by (cases v)
     (simp_all add: precision_def Vertex_fixPrecision_def EndPointControl_fixPrecision_def Let_def)

lemma fixPrecision_heading:
  "get_heading (EndPointControl_fixPrecision p e) = Some (normalize_heading p (ep_heading e))"
  by (simp add: Vertex_fixPrecision_def EndPointControl_fixPrecision_def Let_def)

lemma clone_end_point:
  "\<exists>e'. fst (clone (AnEndPoint e) g) = AnEndPoint e' \<and> ep_heading e' = ep_heading e"
  by (simp add: constructor_defs)

lemma set_xy_end_point:
  "\<exists>e'. set_y (set_x (AnEndPoint e) a) b = AnEndPoint e' \<and> ep_heading e' = ep_heading e"
  by simp

lemma add_xy:
  "get_x (fst (add this vector g)) = toFixed (precision vector) (get_x vector + get_x this)"
  "get_y (fst (add this vector g)) = toFixed (precision vector) (get_y vector + get_y this)"
  by (simp_all add: add_def Let_def split_beta fixPrecision_x fixPrecision_y)

lemma subtract_xy:
  "get_x (fst (subtract this vector g)) = toFixed (precision vector) (get_x this - get_x vector)"
  "get_y (fst (subtract this vector g)) = toFixed (precision vector) (get_y this - get_y vector)"
  by (simp_all add: subtract_def Let_def split_beta fixPrecision_x fixPrecision_y)

lemma multiply_xy:
  "get_x (fst (multiply this vector g)) = toFixed (precision vector) (get_x vector * get_x this)"
  "get_y (fst (multiply this vector g)) = toFixed (precision vector) (get_y vector * get_y this)"
  by (simp_all add: multiply_def Let_def split_beta fixPrecision_x fixPrecision_y)

lemma divide_xy:
  "get_x (fst (divide_v this vector g)) = toFixed (precision vector) (get_x this / get_x vector)"
  "get_y (fst (divide_v this vector g)) = toFixed (precision vector) (get_y this / get_y vector)"
  by (simp_all add: divide_v_def Let_def split_beta fixPrecision_x fixPrecision_y)

lemma interpolate_xy:
  "get_x (fst (interpolate this other len g)) =
     toFixed (precision other)
       (get_x this + len * Math_cos (Math_atan2 (get_y other - get_y this) (get_x other - get_x this)))"
  "get_y (fst (interpolate this other len g)) =
     toFixed (precision other)
       (get_y this + len * Math_sin (Math_atan2 (get_y other - get_y this) (get_x other - get_x this)))"
  by (simp_all add: interpolate_def Let_def split_beta fixPrecision_x fixPrecision_y)

lemma mirror_xy:
  "get_x (fst (mirror this other g)) = toFixed (precision other) (Fin 2 * get_x this - get_x other)"
  "get_y (fst (mirror this other g)) = toFixed (precision other) (Fin 2 * get_y this - get_y other)"
  by (simp_all add: mirror_def Let_def split_beta fixPrecision_x fixPrecision_y)

lemma setXY_xy:
  "get_x (setXY this other) = toFixed (precision this) (get_x other)"
  "get_y (setXY this other) = toFixed (precision this) (get_y other)"
  by (simp_all add: setXY_def Let_def fixPrecision_x fixPrecision_y)

lemma end_point_heading_after:
  "get_heading (fixPrecision (set_y (set_x (fst (clone (AnEndPoint e) g)) a) b)) =
     Some (normalize_heading 2 (ep_heading e))"
  by (simp add: constructor_defs fixPrecision_heading)

lemma operation_headings:
  "get_heading (fst (add this (AnEndPoint e) g)) = Some (normalize_heading 2 (ep_heading e))"
  "get_heading (fst (subtract this (AnEndPoint e) g)) = Some (normalize_heading 2 (ep_heading e))"
  "get_heading (fst (multiply this (AnEndPoint e) g)) = Some (normalize_heading 2 (ep_heading e))"
  "get_heading (fst (divide_v this (AnEndPoint e) g)) = Some (normalize_heading 2 (ep_heading e))"
  "get_heading (fst (interpolate this (AnEndPoint e) len g)) = Some (normalize_heading 2 (ep_heading e))"
  "get_heading (fst (mirror this (AnEndPoint e) g)) = Some (normalize_heading 2 (ep_heading e))"
  "get_heading (setXY (AnEndPoint e) other) = Some (normalize_heading 2 (ep_heading e))"
  by (simp_all add: add_def subtract_def multiply_def divide_v_def interpolate_def mirror_def
        setXY_def Let_def split_beta constructor_defs fixPrecision_heading)

subsection \<open>The heading after normalisation\<close>

lemma rem360_nonneg:
  fixes r :: real
  assumes "0 \<le> r"
  shows "0 \<le> r - 360 * real_of_int \<lfloor>r / 360\<rfloor>" "r - 360 * real_of_int \<lfloor>r / 360\<rfloor> < 360"
proof -
  have "real_of_int \<lfloor>r / 360\<rfloor> \<le> r / 360" by (rule of_int_floor_le)
  then have "360 * real_of_int \<lfloor>r / 360\<rfloor> \<le> r" by linarith
  then show "0 \<le> r - 360 * real_of_int \<lfloor>r / 360\<rfloor>" by simp
  have "r / 360 < real_of_int \<lfloor>r / 360\<rfloor> + 1" by linarith
  then have "r < 360 * real_of_int \<lfloor>r / 360\<rfloor> + 360" by linarith
  then show "r - 360 * real_of_int \<lfloor>r / 360\<rfloor> < 360" by simp
qed

lemma rem360_neg:
  fixes r :: real
  assumes "r < 0"
  shows "r - 360 * real_of_int \<lceil>r / 360\<rceil> \<le> 0" "- 360 < r - 360 * real_of_int \<lceil>r / 360\<rceil>"
proof -
  have "r / 360 \<le> real_of_int \<lceil>r / 360\<rceil>" by (rule le_of_int_ceiling)
  then have "r \<le> 360 * real_of_int \<lceil>r / 360\<rceil>" by linarith
  then show "r - 360 * real_of_int \<lceil>r / 360\<rceil> \<le> 0" by simp
  have "real_of_int \<lceil>r / 360\<rceil> < r / 360 + 1" by linarith
  then have "360 * real_of_int \<lceil>r / 360\<rceil> < r + 360" by linarith
  then show "- 360 < r - 360 * real_of_int \<lceil>r / 360\<rceil>" by simp
qed

lemma round_to_2_range:
  fixes a :: real
  assumes "0 \<le> a" "a < 360"
  shows "0 \<le> round_to 2 a" "round_to 2 a \<le> 360" "\<exists>k::int. round_to 2 a = real_of_int k / 100"
proof -
  have f0: "0 \<le> \<lfloor>\<bar>a\<bar> * 10 ^ 2 + 1 / 2\<rfloor>" using assms by simp
  have "\<bar>a\<bar> * 10 ^ 2 + 1 / 2 < 36001" using assms by simp
  then have "\<lfloor>\<bar>a\<bar> * 10 ^ 2 + 1 / 2\<rfloor> < 36001" by linarith
  then have f1: "real_of_int \<lfloor>\<bar>a\<bar> * 10 ^ 2 + 1 / 2\<rfloor> \<le> 36000" by linarith
  show "0 \<le> round_to 2 a" using assms f0 by (simp add: round_to_def sgn_real_def)
  show "round_to 2 a \<le> 360" using assms f0 f1 by (simp add: round_to_def sgn_real_def)
  show "\<exists>k::int. round_to 2 a = real_of_int k / 100"
    by (rule exI[of _ "if a = 0 then 0 else \<lfloor>\<bar>a\<bar> * 10 ^ 2 + 1 / 2\<rfloor>"])
       (use assms in \<open>simp add: round_to_def sgn_real_def\<close>)
qed

lemma normalize_heading_range:
  "\<exists>r'. normalize_heading 2 (Fin r) = Fin r' \<and> 0 \<le> r' \<and> r' \<le> 360
        \<and> (\<exists>k::int. r' = real_of_int k / 100)"
proof (cases "0 \<le> r")
  case True
  let ?m = "r - 360 * real_of_int \<lfloor>r / 360\<rfloor>"
  have m: "0 \<le> ?m" "?m < 360" using rem360_nonneg[OF True] by auto
  have "normalize_heading 2 (Fin r) = Fin (round_to 2 ?m)"
    using True m by (simp add: normalize_heading_def trunc_def Let_def)
  then show ?thesis using round_to_2_range[OF m] by auto
next
  case False
  then have neg: "r < 0" by simp
  let ?m = "r - 360 * real_of_int \<lceil>r / 360\<rceil>"
  have m: "?m \<le> 0" "- 360 < ?m" using rem360_neg[OF neg] by auto
  show ?thesis
  proof (cases "?m < 0")
    case True
    have m2: "0 \<le> ?m + 360" "?m + 360 < 360" using m True by auto
    have "\<bar>?m + 360\<bar> < 10 ^ 21" using m2 by simp
    then have "normalize_heading 2 (Fin r) = Fin (round_to 2 (?m + 360))"
      using neg True by (simp add: normalize_heading_def trunc_def Let_def)
    then show ?thesis using round_to_2_range[OF m2] by auto
  next
    case False
    then have "?m = 0" using m by simp
    then have "normalize_heading 2 (Fin r) = Fin (round_to 2 0)"
      using neg by (simp add: normalize_heading_def trunc_def Let_def)
    then show ?thesis by (auto simp: round_to_def)
  qed
qed

text \<open>
  Claim C8, as the code has it. Every operation of \<open>Vertex\<close> that returns a point (\<open>add\<close>,
  \<open>subtract\<close>, \<open>multiply\<close>, \<open>divide\<close>, \<open>interpolate\<close>, \<open>mirror\<close>) and the write \<open>setXY\<close>
  round both coordinates of the result with the precision of the class of the result:
  3 decimal places for a \<open>Vertex\<close>, a \<open>Knot\<close> and a \<open>Control\<close>, and 2 decimal places for an
  \<open>EndPointControl\<close>. For an \<open>EndPointControl\<close> the heading is moreover reduced modulo 360
  into \<open>[0, 360)\<close> and then rounded to 2 decimal places, which leaves a multiple of 0.01
  between 0 and 360.
\<close>

theorem C8_operations_round_by_class:
  "get_x (fst (add this vector g)) = toFixed (precision vector) (get_x vector + get_x this)
   \<and> get_y (fst (add this vector g)) = toFixed (precision vector) (get_y vector + get_y this)
   \<and> get_x (fst (subtract this vector g)) = toFixed (precision vector) (get_x this - get_x vector)
   \<and> get_y (fst (subtract this vector g)) = toFixed (precision vector) (get_y this - get_y vector)
   \<and> get_x (fst (multiply this vector g)) = toFixed (precision vector) (get_x vector * get_x this)
   \<and> get_y (fst (multiply this vector g)) = toFixed (precision vector) (get_y vector * get_y this)
   \<and> get_x (fst (divide_v this vector g)) = toFixed (precision vector) (get_x this / get_x vector)
   \<and> get_y (fst (divide_v this vector g)) = toFixed (precision vector) (get_y this / get_y vector)
   \<and> get_x (fst (interpolate this vector len g)) =
       toFixed (precision vector)
         (get_x this + len * Math_cos (Math_atan2 (get_y vector - get_y this) (get_x vector - get_x this)))
   \<and> get_y (fst (interpolate this vector len g)) =
       toFixed (precision vector)
         (get_y this + len * Math_sin (Math_atan2 (get_y vector - get_y this) (get_x vector - get_x this)))
   \<and> get_x (fst (mirror this vector g)) = toFixed (precision vector) (Fin 2 * get_x this - get_x vector)
   \<and> get_y (fst (mirror this vector g)) = toFixed (precision vector) (Fin 2 * get_y this - get_y vector)
   \<and> get_x (setXY this vector) = toFixed (precision this) (get_x vector)
   \<and> get_y (setXY this vector) = toFixed (precision this) (get_y vector)
   \<and> precision (AVertex v) = 3 \<and> precision (AKnot k) = 3 \<and> precision (AControl c) = 3
   \<and> precision (AnEndPoint e) = 2
   \<and> get_heading (fst (add this (AnEndPoint e) g)) = Some (normalize_heading 2 (ep_heading e))
   \<and> get_heading (fst (subtract this (AnEndPoint e) g)) = Some (normalize_heading 2 (ep_heading e))
   \<and> get_heading (fst (multiply this (AnEndPoint e) g)) = Some (normalize_heading 2 (ep_heading e))
   \<and> get_heading (fst (divide_v this (AnEndPoint e) g)) = Some (normalize_heading 2 (ep_heading e))
   \<and> get_heading (fst (interpolate this (AnEndPoint e) len g))
       = Some (normalize_heading 2 (ep_heading e))
   \<and> get_heading (fst (mirror this (AnEndPoint e) g)) = Some (normalize_heading 2 (ep_heading e))
   \<and> get_heading (setXY (AnEndPoint e) vector) = Some (normalize_heading 2 (ep_heading e))
   \<and> (\<exists>r'. normalize_heading 2 (Fin r) = Fin r' \<and> 0 \<le> r' \<and> r' \<le> 360
            \<and> (\<exists>i::int. r' = real_of_int i / 100))"
  by (simp only: add_xy subtract_xy multiply_xy divide_xy interpolate_xy mirror_xy setXY_xy
        operation_headings normalize_heading_range simp_thms)
     (simp add: precision_def)

text \<open>
  Against claim C8 as it is written: \<open>setXY\<close> on an \<open>EndPointControl\<close> with the abscissa
  1.234 leaves 1.23, which is not 1.234 rounded to 3 decimal places.
\<close>

theorem C8_end_point_two_decimals:
  "get_x (setXY (AnEndPoint \<lparr>x = Fin 0, y = Fin 0, uid = 0, lock = False, visible = True,
                             ep_heading = Fin 0\<rparr>)
                (AVertex \<lparr>x = Fin (1234 / 1000), y = Fin 0\<rparr>)) = Fin (123 / 100)
   \<and> toFixed 3 (Fin (1234 / 1000)) = Fin (1234 / 1000)
   \<and> Fin (123 / 100) \<noteq> Fin (1234 / 1000)"
  by (simp add: setXY_def EndPointControl_fixPrecision_def Vertex_fixPrecision_def round_to_def
        Let_def)

text \<open>
  Claim C9, as the code has it. The identifier generator is called exactly once by each
  constructor of a \<open>Control\<close>, an \<open>EndPointControl\<close>, a \<open>Spline\<close> and a \<open>Path\<close>. \<open>clone\<close> of a
  \<open>Control\<close> or an \<open>EndPointControl\<close> goes through the constructor, so it calls the
  generator once as well and the clone carries the fresh identifier, not the one of the
  original; \<open>clone\<close> of a \<open>Vertex\<close> or a \<open>Knot\<close> does not call it.
\<close>

theorem C9_identifiers_on_construction_and_clone:
  "snd (new_Control a b g) = Suc g \<and> uid (fst (new_Control a b g)) = g
   \<and> snd (new_EndPointControl a b h g) = Suc g \<and> uid (fst (new_EndPointControl a b h g)) = g
   \<and> snd (new_Spline start middle end_point g) = Suc g
   \<and> spline_uid (fst (new_Spline start middle end_point g)) = g
   \<and> snd (new_Path firstSpline g) = Suc g \<and> path_uid (fst (new_Path firstSpline g)) = g
   \<and> clone (AControl c) g = (AControl \<lparr>x = x c, y = y c, uid = g, lock = False, visible = True\<rparr>, Suc g)
   \<and> clone (AnEndPoint e) g =
       (AnEndPoint \<lparr>x = x e, y = y e, uid = g, lock = False, visible = True,
                    ep_heading = ep_heading e\<rparr>, Suc g)
   \<and> snd (clone (AVertex v) g) = g
   \<and> snd (clone (AKnot k) g) = g"
  by (simp add: constructor_defs new_Spline_def new_Path_def Let_def)

text \<open>
  Against claim C9 as it is written: cloning a control whose identifier is 0, with a
  generator that has handed out one identifier, calls the generator, which has then handed
  out two, and gives the clone the new identifier 1.
\<close>

theorem C9_clone_calls_generator:
  "clone (AControl \<lparr>x = Fin 0, y = Fin 0, uid = 0, lock = False, visible = True\<rparr>) 1
     = (AControl \<lparr>x = Fin 0, y = Fin 0, uid = 1, lock = False, visible = True\<rparr>, 2)
   \<and> snd (clone (AControl \<lparr>x = Fin 0, y = Fin 0, uid = 0, lock = False, visible = True\<rparr>) 1) \<noteq> 1"
  by (simp add: constructor_defs)

section \<open>The curve at its ends\<close>

lemma binomial_small:
  "Spline_binomial 1 0 = Fin 1" "Spline_binomial 1 1 = Fin 1"
  "Spline_binomial 3 0 = Fin 1" "Spline_binomial 3 1 = Fin 3"
  "Spline_binomial 3 2 = Fin 3" "Spline_binomial 3 3 = Fin 1"
  by (simp_all add: Spline_binomial_def upt_rec)

lemma binomial_Suc:
  "Spline_binomial (Suc 0) 0 = Fin 1" "Spline_binomial (Suc 0) (Suc 0) = Fin 1"
  using binomial_small by simp_all

lemma binomial_Suc3:
  "Spline_binomial (Suc (Suc (Suc 0))) 0 = Fin 1"
  "Spline_binomial (Suc (Suc (Suc 0))) (Suc 0) = Fin 3"
  "Spline_binomial (Suc (Suc (Suc 0))) (Suc (Suc 0)) = Fin 3"
  "Spline_binomial (Suc (Suc (Suc 0))) (Suc (Suc (Suc 0))) = Fin 1"
  using binomial_small by (simp_all add: numeral_3_eq_3 numeral_2_eq_2)

lemma upt_4: "[0..<Suc 3] = [0, 1, 2, 3]"
  by (simp add: upt_rec)

text \<open>A line and a cubic curve at a finite parameter, with finite controls.\<close>

lemma bezier_point_2:
  assumes "get_x c0 = Fin a0" "get_y c0 = Fin b0" "get_x c1 = Fin a1" "get_y c1 = Fin b1"
  shows "bezier_point [c0, c1] (Fin t) =
           \<lparr>x = Fin ((1 - t) * a0 + t * a1), y = Fin ((1 - t) * b0 + t * b1)\<rparr>"
  using assms
  by (simp add: bezier_point_def bernstein_def binomial_Suc upt_rec new_Vertex_def Let_def
        algebra_simps)

lemma bezier_point_4:
  assumes "get_x c0 = Fin a0" "get_y c0 = Fin b0" "get_x c1 = Fin a1" "get_y c1 = Fin b1"
    "get_x c2 = Fin a2" "get_y c2 = Fin b2" "get_x c3 = Fin a3" "get_y c3 = Fin b3"
  shows "bezier_point [c0, c1, c2, c3] (Fin t) =
     \<lparr>x = Fin ((1 - t)^3 * a0 + 3 * t * (1 - t)^2 * a1 + 3 * t^2 * (1 - t) * a2 + t^3 * a3),
      y = Fin ((1 - t)^3 * b0 + 3 * t * (1 - t)^2 * b1 + 3 * t^2 * (1 - t) * b2 + t^3 * b3)\<rparr>"
  using assms
  by (simp add: bezier_point_def bernstein_def binomial_Suc3 upt_4 new_Vertex_def Let_def
        algebra_simps power2_eq_square power3_eq_cube)

text \<open>
  Claim C7. For a spline with 2 or 4 controls whose coordinates are finite numbers, the
  point of the curve at \<open>t = 0\<close> is the first control and the point at \<open>t = 1\<close> is the
  last control, exactly; and for the degrees 1 and 3 that occur, the coefficients computed
  by \<open>binomial\<close> are the binomial coefficients.
\<close>

theorem C7_curve_ends_at_controls:
  assumes "length cs = 2 \<or> length cs = 4"
    and "\<forall>c \<in> set cs. \<exists>a b. get_x c = Fin a \<and> get_y c = Fin b"
  shows "bezier_point cs (Fin 0) = \<lparr>x = get_x (hd cs), y = get_y (hd cs)\<rparr>
       \<and> bezier_point cs (Fin 1) = \<lparr>x = get_x (last cs), y = get_y (last cs)\<rparr>
       \<and> Spline_binomial 1 0 = Fin (real (1 choose 0))
       \<and> Spline_binomial 1 1 = Fin (real (1 choose 1))
       \<and> Spline_binomial 3 0 = Fin (real (3 choose 0))
       \<and> Spline_binomial 3 1 = Fin (real (3 choose 1))
       \<and> Spline_binomial 3 2 = Fin (real (3 choose 2))
       \<and> Spline_binomial 3 3 = Fin (real (3 choose 3))"
proof -
  have bin: "Spline_binomial 1 0 = Fin (real (1 choose 0))
       \<and> Spline_binomial 1 1 = Fin (real (1 choose 1))
       \<and> Spline_binomial 3 0 = Fin (real (3 choose 0))
       \<and> Spline_binomial 3 1 = Fin (real (3 choose 1))
       \<and> Spline_binomial 3 2 = Fin (real (3 choose 2))
       \<and> Spline_binomial 3 3 = Fin (real (3 choose 3))"
    by (simp add: binomial_Suc binomial_Suc3 numeral_3_eq_3 numeral_2_eq_2)
  from assms(1) show ?thesis
  proof
    assume "length cs = 2"
    then obtain c0 c1 where cs: "cs = [c0, c1]"
      by (cases cs; cases "tl cs") auto
    from assms(2) cs obtain a0 b0 a1 b1 where
      "get_x c0 = Fin a0" "get_y c0 = Fin b0" "get_x c1 = Fin a1" "get_y c1 = Fin b1"
      by auto
    then show ?thesis using bin by (simp add: cs bezier_point_2)
  next
    assume "length cs = 4"
    then obtain c0 c1 c2 c3 where cs: "cs = [c0, c1, c2, c3]"
      by (auto simp: length_Suc_conv numeral_eq_Suc)
    from assms(2) cs obtain a0 b0 a1 b1 a2 b2 a3 b3 where
      "get_x c0 = Fin a0" "get_y c0 = Fin b0" "get_x c1 = Fin a1" "get_y c1 = Fin b1"
      "get_x c2 = Fin a2" "get_y c2 = Fin b2" "get_x c3 = Fin a3" "get_y c3 = Fin b3"
      by auto
    then show ?thesis using bin by (simp add: cs bezier_point_4)
  qed
qed

text \<open>Claim C7 on the cubic curve with the controls (1, 2), (5, 7), (-3, 4) and (8, 6).\<close>

theorem C7_witness:
  "bezier_point
     [AnEndPoint \<lparr>x = Fin 1, y = Fin 2, uid = 0, lock = False, visible = True, ep_heading = Fin 0\<rparr>,
      AControl \<lparr>x = Fin 5, y = Fin 7, uid = 1, lock = False, visible = True\<rparr>,
      AControl \<lparr>x = Fin (- 3), y = Fin 4, uid = 2, lock = False, visible = True\<rparr>,
      AnEndPoint \<lparr>x = Fin 8, y = Fin 6, uid = 3, lock = False, visible = True, ep_heading = Fin 90\<rparr>]
     (Fin 0) = \<lparr>x = Fin 1, y = Fin 2\<rparr>
   \<and> bezier_point
     [AnEndPoint \<lparr>x = Fin 1, y = Fin 2, uid = 0, lock = False, visible = True, ep_heading = Fin 0\<rparr>,
      AControl \<lparr>x = Fin 5, y = Fin 7, uid = 1, lock = False, visible = True\<rparr>,
      AControl \<lparr>x = Fin (- 3), y = Fin 4, uid = 2, lock = False, visible = True\<rparr>,
      AnEndPoint \<lparr>x = Fin 8, y = Fin 6, uid = 3, lock = False, visible = True, ep_heading = Fin 90\<rparr>]
     (Fin 1) = \<lparr>x = Fin 8, y = Fin 6\<rparr>"
  using C7_curve_ends_at_controls [of
     "[AnEndPoint \<lparr>x = Fin 1, y = Fin 2, uid = 0, lock = False, visible = True, ep_heading = Fin 0\<rparr>,
      AControl \<lparr>x = Fin 5, y = Fin 7, uid = 1, lock = False, visible = True\<rparr>,
      AControl \<lparr>x = Fin (- 3), y = Fin 4, uid = 2, lock = False, visible = True\<rparr>,
      AnEndPoint \<lparr>x = Fin 8, y = Fin 6, uid = 3, lock = False, visible = True, ep_heading = Fin 90\<rparr>]"]
  by simp

section \<open>Speed\<close>

lemma strict_ne_Fin [simp]: "strict_ne (Fin a) (Fin b) = (a \<noteq> b)"
  by (simp add: strict_ne_def strict_eq_def)

lemma strict_eq_Fin [simp]: "strict_eq (Fin a) (Fin b) = (a = b)"
  by (simp add: strict_eq_def)

lemma Math_min_Fin [simp]: "Math_min (Fin a) (Fin b) = Fin (min a b)"
  by (simp add: Math_min_def min_def)

lemma is_Fin_iff: "is_Fin a \<longleftrightarrow> (\<exists>r. a = Fin r)"
  by (cases a) auto

lemma finite_knotD:
  assumes "finite_knot k"
  obtains a b d i where "x k = Fin a" "y k = Fin b" "delta k = Fin d" "integral k = Fin i"
  using assms by (auto simp: finite_knot_def is_Fin_iff)

lemma ratio_bounds:
  fixes d af at' lo hi :: real
  assumes "af \<le> d" "d \<le> at'" "at' \<noteq> af" "lo \<le> hi"
  shows "lo \<le> lo + (d - af) * ((hi - lo) / (at' - af))"
    and "lo + (d - af) * ((hi - lo) / (at' - af)) \<le> hi"
proof -
  have pos: "0 < at' - af" using assms by simp
  have eq: "(d - af) * ((hi - lo) / (at' - af)) = ((d - af) / (at' - af)) * (hi - lo)" by simp
  have r0: "0 \<le> (d - af) / (at' - af)" using assms pos by simp
  have r1: "(d - af) / (at' - af) \<le> 1" using assms pos by simp
  have "0 \<le> ((d - af) / (at' - af)) * (hi - lo)" using r0 assms by simp
  then show "lo \<le> lo + (d - af) * ((hi - lo) / (at' - af))" unfolding eq by simp
  have "((d - af) / (at' - af)) * (hi - lo) \<le> 1 * (hi - lo)"
    using r1 assms by (intro mult_right_mono) auto
  then show "lo + (d - af) * ((hi - lo) / (at' - af)) \<le> hi" unfolding eq by simp
qed

lemma base_speed_bounded:
  assumes "range_from (speedLimit sc) = Fin lo" "range_to (speedLimit sc) = Fin hi" "lo \<le> hi"
    and "range_from (applicationRange sc) = Fin af" "range_to (applicationRange sc) = Fin at'"
  shows "\<exists>s. base_speed sc (Fin d) = Fin s \<and> lo \<le> s \<and> s \<le> hi"
  using assms ratio_bounds[of af d at' lo hi]
  by (auto simp: base_speed_def Let_def)

lemma calculateSpeed_base:
  "speed (calculateSpeed sc pathTTD p3) =
     (let s = base_speed sc (delta p3)
      in if integral p3 < range_from (transitionRange sc) * pathTTD
         then Math_min s (range_from (speedLimit sc) + (integral p3 / pathTTD)
                 * ((range_to (speedLimit sc) - range_from (speedLimit sc))
                      / range_from (transitionRange sc)))
         else if range_to (transitionRange sc) * pathTTD < integral p3
         then Math_min s (range_from (speedLimit sc) + (Fin 1 - integral p3 / pathTTD)
                 * ((range_to (speedLimit sc) - range_from (speedLimit sc))
                      / (Fin 1 - range_to (transitionRange sc))))
         else s)"
  by (simp add: calculateSpeed_def base_speed_def Let_def)

lemma calculateSpeed_fields [simp]:
  "integral (calculateSpeed sc p k) = integral k" "delta (calculateSpeed sc p k) = delta k"
  "x (calculateSpeed sc p k) = x k" "y (calculateSpeed sc p k) = y k"
  "heading (calculateSpeed sc p k) = heading k"
  by (simp_all add: calculateSpeed_def Let_def)

text \<open>
  \<open>calculateSpeed\<close> on a knot at a travelled distance \<open>i\<close> with \<open>0 \<le> i < pathTTD\<close>: the
  ramp of the acceleration is read only where \<open>transitionRange.from\<close> is positive, and the
  ramp of the deceleration only where \<open>transitionRange.to\<close> is less than 1, so a scale
  that is infinite is never used.
\<close>

lemma calculateSpeed_bounded:
  assumes sl: "range_from (speedLimit sc) = Fin lo" "range_to (speedLimit sc) = Fin hi" "lo \<le> hi"
    and ar: "range_from (applicationRange sc) = Fin af" "range_to (applicationRange sc) = Fin at'"
    and tr: "range_from (transitionRange sc) = Fin tf" "range_to (transitionRange sc) = Fin tt"
    and k: "delta p3 = Fin d" "integral p3 = Fin i" "0 \<le> i" "i < P"
  shows "\<exists>s. speed (calculateSpeed sc (Fin P) p3) = Fin s \<and> lo \<le> s \<and> s \<le> hi"
proof -
  have P: "0 < P" using k by simp
  obtain s where s: "base_speed sc (Fin d) = Fin s" "lo \<le> s" "s \<le> hi"
    using base_speed_bounded[OF sl ar] by blast
  show ?thesis
  proof (cases "i < tf * P")
    case True
    have tf: "0 < tf"
    proof (rule ccontr)
      assume "\<not> 0 < tf"
      then have "tf * P \<le> 0" using P by (simp add: mult_nonpos_nonneg)
      with True k show False by simp
    qed
    have "0 \<le> (i / P) * ((hi - lo) / tf)" using k P tf sl by simp
    then show ?thesis using True s sl tr k tf P
      by (simp add: calculateSpeed_base Let_def min_def)
  next
    case False
    show ?thesis
    proof (cases "tt * P < i")
      case True
      have "tt * P < 1 * P" using True k(4) by linarith
      then have tt: "tt < 1" using P by (simp only: mult_less_cancel_right_pos)
      have "0 \<le> (1 - i / P) * ((hi - lo) / (1 - tt))" using k P tt sl by simp
      then show ?thesis using True False s sl tr k tt P
        by (simp add: calculateSpeed_base Let_def min_def)
    next
      case F2: False
      then show ?thesis using False s sl tr k
        by (simp add: calculateSpeed_base Let_def)
    qed
  qed
qed

lemma resampled_speed_within:
  assumes "range_from (speedLimit sc) = Fin lo" "range_to (speedLimit sc) = Fin hi" "lo \<le> hi"
    and "is_Fin (range_from (applicationRange sc))" "is_Fin (range_to (applicationRange sc))"
    and "is_Fin (range_from (transitionRange sc))" "is_Fin (range_to (transitionRange sc))"
    and "resampled (Fin P) p"
  shows "speed_within sc (calculateSpeed sc (Fin P) p)"
proof -
  from assms(4-7) obtain af at' tf tt where c:
    "range_from (applicationRange sc) = Fin af" "range_to (applicationRange sc) = Fin at'"
    "range_from (transitionRange sc) = Fin tf" "range_to (transitionRange sc) = Fin tt"
    by (auto simp: is_Fin_iff)
  from assms(8) obtain d i where p: "delta p = Fin d" "integral p = Fin i" "0 \<le> i" "i < P"
    by (cases "integral p") (auto simp: resampled_def is_Fin_iff)
  from calculateSpeed_bounded[OF assms(1-3) c p]
  show ?thesis using assms(1,2) by (auto simp: speed_within_def)
qed

section \<open>The first pass\<close>

lemma not_negative_add: "not_negative a \<Longrightarrow> not_negative b \<Longrightarrow> not_negative (a + b)"
  by (cases a; cases b) (auto simp: not_negative_def)

lemma not_negative_sqrt: "not_negative (Math_sqrt a)"
  by (cases a) (auto simp: not_negative_def)

lemma not_negative_distance: "not_negative (distance u v)"
  by (simp add: distance_def not_negative_sqrt)

lemma mult_below:
  assumes "t < Fin 1" "not_negative p"
  shows "\<not> p < t * p"
proof (cases p)
  case (Fin r)
  then have r: "0 \<le> r" using assms(2) by (simp add: not_negative_def)
  show ?thesis
  proof (cases t)
    case (Fin s)
    then have "s < 1" using assms(1) by simp
    then have "s * r \<le> 1 * r" using r by (intro mult_right_mono) auto
    then show ?thesis using Fin \<open>p = Fin r\<close> by simp
  qed (use assms(1) \<open>p = Fin r\<close> r in \<open>auto\<close>)
next
  case PosInf
  then show ?thesis by (cases t) auto
next
  case NegInf
  then show ?thesis using assms(2) by (simp add: not_negative_def)
next
  case NaN
  then show ?thesis by simp
qed

lemma bezier_step_integral:
  "integral (fst (bezier_step cs t td lp)) = fst (snd (bezier_step cs t td lp))"
  "not_negative td \<Longrightarrow> not_negative (fst (snd (bezier_step cs t td lp)))"
  by (simp_all add: bezier_step_def Let_def new_Knot_def not_negative_add not_negative_distance)

text \<open>What the loop of \<open>calculateBezierCurveKnots\<close> returns, when it returns: the travelled
  distances are not negative, and the knots it started with come first.\<close>

lemma bezier_loop_not_negative:
  assumes "bezier_loop cs iv t td lp knots = Some r"
  shows "not_negative td \<longrightarrow> (\<forall>k \<in> set knots. not_negative (integral k))
         \<longrightarrow> (\<forall>k \<in> set r. not_negative (integral k))"
proof (rule bezier_loop.raw_induct[where P = "\<lambda>cs iv t td lp knots r.
         not_negative td \<longrightarrow> (\<forall>k \<in> set knots. not_negative (integral k))
         \<longrightarrow> (\<forall>k \<in> set r. not_negative (integral k))", OF _ assms], goal_cases)
  case (1 f cs iv t td lp knots r)
  show ?case
  proof (cases "t \<le> Fin 1")
    case True
    with 1(2) have call: "f cs iv (t + iv) (fst (snd (bezier_step cs t td lp)))
             (snd (snd (bezier_step cs t td lp))) (knots @ [fst (bezier_step cs t td lp)]) = Some r"
      by simp
    show ?thesis using 1(1)[OF call] by (auto simp: bezier_step_integral)
  next
    case False
    with 1(2) show ?thesis by auto
  qed
qed

lemma bezier_loop_prefix:
  assumes "bezier_loop cs iv t td lp knots = Some r"
  shows "\<exists>more. r = knots @ more \<and> (t \<le> Fin 1 \<longrightarrow> more \<noteq> [])"
proof (rule bezier_loop.raw_induct[where P = "\<lambda>cs iv t td lp knots r.
         \<exists>more. r = knots @ more \<and> (t \<le> Fin 1 \<longrightarrow> more \<noteq> [])", OF _ assms], goal_cases)
  case (1 f cs iv t td lp knots r)
  show ?case
  proof (cases "t \<le> Fin 1")
    case True
    with 1(2) have call: "f cs iv (t + iv) (fst (snd (bezier_step cs t td lp)))
             (snd (snd (bezier_step cs t td lp))) (knots @ [fst (bezier_step cs t td lp)]) = Some r"
      by simp
    show ?thesis using 1(1)[OF call] by auto
  next
    case False
    with 1(2) show ?thesis by auto
  qed
qed

lemma set_first_heading_props:
  "length (set_first_heading s ks) = length ks"
  "ks \<noteq> [] \<Longrightarrow> integral (last (set_first_heading s ks)) = integral (last ks)"
  by (cases ks; cases "tl ks"; auto simp: set_first_heading_def)+

lemma Spline_calculateKnots_shape:
  assumes "Spline_calculateKnots gc sc s i0 = Some (Inr ks)" "not_negative i0"
  shows "2 \<le> length ks \<and> not_negative (integral (last ks))"
proof -
  let ?ti = "toCentimeter gc (knotDensity gc) / Fin 200"
  from assms(1) obtain knots0 lc where
    b: "calculateBezierCurveKnots s ?ti i0 = Some (Inr knots0)"
    and lc: "last_control s = Some lc" and ne: "knots0 \<noteq> []"
    and ks: "ks = map (\<lambda>k. k\<lparr>delta := delta k * ((Fin 1 / ?ti)
                 / ((integral (last (set_first_heading s knots0))
                      + distance (AKnot (last (set_first_heading s knots0))) lc - i0)
                    / knotDensity gc))\<rparr>)
              (set_first_heading s knots0 @
                [new_Knot (get_x lc) (get_y lc)
                   (distance (AKnot (last (set_first_heading s knots0))) lc)
                   (integral (last (set_first_heading s knots0))
                      + distance (AKnot (last (set_first_heading s knots0))) lc)
                   (Fin 0) (get_heading lc)])"
    by (auto simp: Spline_calculateKnots_def Let_def split: option.splits sum.splits if_splits)
  from b obtain c cs' where "controls s = c # cs'"
    and loop: "bezier_loop (controls s) ?ti (Fin 0) i0 c [] = Some knots0"
    by (auto simp: calculateBezierCurveKnots_def split: list.splits)
  have "\<forall>k \<in> set knots0. not_negative (integral k)"
    using bezier_loop_not_negative[OF loop] assms(2) by simp
  then have "not_negative (integral (last knots0))" using ne by simp
  then have "not_negative (integral (last (set_first_heading s knots0)))"
    using ne by (simp add: set_first_heading_props)
  then have "not_negative (integral (last ks))"
    by (simp add: ks new_Knot_def last_map not_negative_add not_negative_distance)
  moreover have "2 \<le> length ks" using ne
    by (cases knots0) (simp_all add: ks set_first_heading_props)
  ultimately show ?thesis by simp
qed

text \<open>One round of the loop of the first pass, once the spline has returned its knots.\<close>

lemma pass1_step:
  assumes "Spline_calculateKnots gc sc s p0 = Some (Inr (firstKnot # knots))"
  shows "pass1 gc sc (s # ss) gen0 p0 =
           (if (if strict_eq p0 (Fin 0) then gen0 @ [firstKnot] else gen0) @ knots = []
            then Some (Inl TypeError)
            else pass1 gc sc ss ((if strict_eq p0 (Fin 0) then gen0 @ [firstKnot] else gen0) @ knots)
                   (integral (last ((if strict_eq p0 (Fin 0) then gen0 @ [firstKnot] else gen0)
                                     @ knots))))"
  using assms by (simp only: pass1.simps Let_def option.case sum.case list.case)

lemma pass1_returns_spline:
  assumes "pass1 gc sc (s # ss) gen0 p0 = Some (Inr r)"
  obtains firstKnot knots where
    "Spline_calculateKnots gc sc s p0 = Some (Inr (firstKnot # knots))"
  using assms by (auto split: option.splits sum.splits list.splits)

lemma pass1_last:
  assumes "pass1 gc sc ss gen0 p0 = Some (Inr (gen1, p))"
    and "not_negative p0" "gen0 \<noteq> [] \<longrightarrow> p0 = integral (last gen0)"
  shows "not_negative p \<and> (gen1 \<noteq> [] \<longrightarrow> p = integral (last gen1))"
  using assms
proof (induction ss arbitrary: gen0 p0)
  case Nil
  then show ?case by simp
next
  case (Cons s ss)
  from Cons.prems(1) obtain firstKnot knots where
    sk: "Spline_calculateKnots gc sc s p0 = Some (Inr (firstKnot # knots))"
    by (rule pass1_returns_spline)
  let ?g = "(if strict_eq p0 (Fin 0) then gen0 @ [firstKnot] else gen0) @ knots"
  from Spline_calculateKnots_shape[OF sk Cons.prems(2)]
  have kn: "knots \<noteq> []" and nn: "not_negative (integral (last (firstKnot # knots)))" by auto
  then have g: "?g \<noteq> []" and lastg: "last ?g = last (firstKnot # knots)" by auto
  have "pass1 gc sc (s # ss) gen0 p0 = pass1 gc sc ss ?g (integral (last ?g))"
    using g by (simp only: pass1_step[OF sk] if_False)
  with Cons.prems(1) have rec: "pass1 gc sc ss ?g (integral (last ?g)) = Some (Inr (gen1, p))"
    by simp
  show ?case
    by (rule Cons.IH[OF rec]) (use nn lastg in auto)
qed

lemma pass1_controls:
  assumes "pass1 gc sc ss g p = Some (Inr r)"
  shows "\<forall>s \<in> set ss. controls s \<noteq> []"
  using assms
proof (induction ss arbitrary: g p)
  case Nil
  then show ?case by simp
next
  case (Cons s ss)
  from Cons.prems obtain firstKnot knots where
    sk: "Spline_calculateKnots gc sc s p = Some (Inr (firstKnot # knots))"
    by (rule pass1_returns_spline)
  then have c: "controls s \<noteq> []"
    by (auto simp: Spline_calculateKnots_def calculateBezierCurveKnots_def Let_def
        split: list.splits option.splits sum.splits)
  let ?g = "(if strict_eq p (Fin 0) then g @ [firstKnot] else g) @ knots"
  from Cons.prems have "pass1 gc sc ss ?g (integral (last ?g)) = Some (Inr r)"
    unfolding pass1_step[OF sk] by (auto split: if_splits)
  from Cons.IH[OF this] c show ?case by simp
qed

lemma pass1_prefix:
  assumes "pass1 gc sc ss g p = Some (Inr (g', p'))"
  shows "\<exists>more. g' = g @ more"
  using assms
proof (induction ss arbitrary: g p)
  case Nil
  then show ?case by simp
next
  case (Cons s ss)
  from Cons.prems obtain firstKnot knots where
    sk: "Spline_calculateKnots gc sc s p = Some (Inr (firstKnot # knots))"
    by (rule pass1_returns_spline)
  let ?g = "(if strict_eq p (Fin 0) then g @ [firstKnot] else g) @ knots"
  from Cons.prems have "pass1 gc sc ss ?g (integral (last ?g)) = Some (Inr (g', p'))"
    unfolding pass1_step[OF sk] by (auto split: if_splits)
  from Cons.IH[OF this] show ?case by (auto split: if_splits)
qed

lemma pass1_head:
  assumes "pass1 gc sc (s # ss) [] (Fin 0) = Some (Inr (gen1, p))"
  shows "\<exists>ks. Spline_calculateKnots gc sc s (Fin 0) = Some (Inr ks) \<and> 2 \<le> length ks
            \<and> 2 \<le> length gen1 \<and> gen1 ! 0 = ks ! 0"
proof -
  from assms obtain firstKnot knots where
    sk: "Spline_calculateKnots gc sc s (Fin 0) = Some (Inr (firstKnot # knots))"
    by (rule pass1_returns_spline)
  have nn: "not_negative (Fin 0)" by (simp add: not_negative_def)
  from Spline_calculateKnots_shape[OF sk nn] have kn: "knots \<noteq> []" by auto
  let ?g = "[firstKnot] @ knots"
  have "pass1 gc sc (s # ss) [] (Fin 0) = pass1 gc sc ss ?g (integral (last ?g))"
    using sk by (simp add: Let_def)
  with assms have "pass1 gc sc ss ?g (integral (last ?g)) = Some (Inr (gen1, p))" by simp
  from pass1_prefix[OF this] obtain more where "gen1 = ?g @ more" by blast
  then show ?thesis using sk kn by (cases knots) auto
qed

text \<open>The first knot of the first spline of a path, from a line or a cubic curve with
  finite controls and an interval of the first pass of at most 1.\<close>

lemma bezier_point_start:
  assumes "length cs = 2 \<or> length cs = 4"
    and "\<forall>c \<in> set cs. \<exists>a b. get_x c = Fin a \<and> get_y c = Fin b"
  shows "bezier_point cs (Fin 0) = \<lparr>x = get_x (hd cs), y = get_y (hd cs)\<rparr>"
  using assms(1)
proof
  assume "length cs = 2"
  then obtain c0 c1 where cs: "cs = [c0, c1]"
    by (cases cs; cases "tl cs") auto
  from assms(2) cs obtain a0 b0 a1 b1 where
    "get_x c0 = Fin a0" "get_y c0 = Fin b0" "get_x c1 = Fin a1" "get_y c1 = Fin b1"
    by auto
  then show ?thesis by (simp add: cs bezier_point_2)
next
  assume "length cs = 4"
  then obtain c0 c1 c2 c3 where cs: "cs = [c0, c1, c2, c3]"
    by (auto simp: length_Suc_conv numeral_eq_Suc)
  from assms(2) cs obtain a0 b0 a1 b1 a2 b2 a3 b3 where
    "get_x c0 = Fin a0" "get_y c0 = Fin b0" "get_x c1 = Fin a1" "get_y c1 = Fin b1"
    "get_x c2 = Fin a2" "get_y c2 = Fin b2" "get_x c3 = Fin a3" "get_y c3 = Fin b3"
    by auto
  then show ?thesis by (simp add: cs bezier_point_4)
qed

lemma bezier_first_step:
  assumes "length cs = 2 \<or> length cs = 4"
    and "\<forall>c \<in> set cs. \<exists>a b. get_x c = Fin a \<and> get_y c = Fin b"
  shows "fst (bezier_step cs (Fin 0) (Fin 0) (hd cs)) =
           new_Knot (get_x (hd cs)) (get_y (hd cs)) (Fin 0) (Fin 0) (Fin 0) None"
proof -
  have "cs \<noteq> []" using assms(1) by auto
  then have "hd cs \<in> set cs" by simp
  with assms(2) obtain a b where "get_x (hd cs) = Fin a" "get_y (hd cs) = Fin b" by blast
  then show ?thesis
    by (simp add: bezier_step_def bezier_point_start[OF assms] distance_def Let_def)
qed

lemma Spline_calculateKnots_head:
  assumes sk: "Spline_calculateKnots gc sc s (Fin 0) = Some (Inr ks)"
    and len: "length (controls s) = 2 \<or> length (controls s) = 4"
    and fin: "\<forall>c \<in> set (controls s). \<exists>a b. get_x c = Fin a \<and> get_y c = Fin b"
    and ti: "toCentimeter gc (knotDensity gc) / Fin 200 \<le> Fin 1"
  shows "x (ks ! 0) = get_x (hd (controls s)) \<and> y (ks ! 0) = get_y (hd (controls s))
         \<and> integral (ks ! 0) = Fin 0 \<and> heading (ks ! 0) = get_heading (hd (controls s))"
proof -
  let ?ti = "toCentimeter gc (knotDensity gc) / Fin 200"
  let ?cs = "controls s"
  from len obtain c cs' where cs: "?cs = c # cs'" by (cases ?cs) auto
  from sk obtain knots0 lc where
    b: "calculateBezierCurveKnots s ?ti (Fin 0) = Some (Inr knots0)"
    and ks: "\<exists>r fk. ks = map (\<lambda>k. k\<lparr>delta := delta k * r\<rparr>) (set_first_heading s knots0 @ [fk])"
    by (auto simp: Spline_calculateKnots_def Let_def split: option.splits sum.splits if_splits)
  from b cs have loop: "bezier_loop ?cs ?ti (Fin 0) (Fin 0) (hd ?cs) [] = Some knots0"
    by (auto simp: calculateBezierCurveKnots_def)
  let ?k0 = "fst (bezier_step ?cs (Fin 0) (Fin 0) (hd ?cs))"
  let ?s0 = "bezier_step ?cs (Fin 0) (Fin 0) (hd ?cs)"
  let ?s1 = "bezier_step ?cs (Fin 0 + ?ti) (fst (snd ?s0)) (snd (snd ?s0))"
  have t1: "Fin 0 + ?ti \<le> Fin 1" using ti by (cases ?ti) auto
  have "bezier_loop ?cs ?ti (Fin 0) (Fin 0) (hd ?cs) [] =
          bezier_loop ?cs ?ti (Fin 0 + ?ti) (fst (snd ?s0)) (snd (snd ?s0)) [?k0]"
    by (subst bezier_loop.simps) simp
  also have "\<dots> = bezier_loop ?cs ?ti (Fin 0 + ?ti + ?ti) (fst (snd ?s1)) (snd (snd ?s1))
                     ([?k0] @ [fst ?s1])"
    using t1 by (subst bezier_loop.simps) simp
  finally have "bezier_loop ?cs ?ti (Fin 0 + ?ti + ?ti) (fst (snd ?s1)) (snd (snd ?s1))
                     ([?k0] @ [fst ?s1]) = Some knots0" using loop by simp
  from bezier_loop_prefix[OF this] obtain more where k: "knots0 = ?k0 # fst ?s1 # more" by auto
  have f: "first s = Some (hd ?cs)" by (simp add: first_def cs)
  from ks obtain r fk where
    "ks = map (\<lambda>k. k\<lparr>delta := delta k * r\<rparr>) (set_first_heading s knots0 @ [fk])"
    by blast
  then have "ks ! 0 = (?k0\<lparr>heading := get_heading (hd ?cs)\<rparr>)\<lparr>delta := delta ?k0 * r\<rparr>"
    by (simp add: k set_first_heading_def f)
  then show ?thesis
    by (simp add: bezier_first_step[OF len fin] new_Knot_def)
qed

section \<open>The second pass\<close>

text \<open>
  The loop that moves \<open>closestIdx\<close> forward ends within the array when the last knot is
  not before the target. It stops at the first knot from \<open>closestIdx\<close> on that is not
  before the target, and every knot it has passed is before the target.
\<close>

lemma advance_ok:
  assumes "\<not> integral (last gen1) < target" "closestIdx < length gen1"
  shows "\<exists>idx' h'. advance gen1 target closestIdx h = Inr (idx', h') \<and> closestIdx \<le> idx'
           \<and> idx' < length gen1 \<and> \<not> integral (gen1 ! idx') < target
           \<and> (closestIdx < idx' \<longrightarrow> integral (gen1 ! (idx' - 1)) < target)"
  using assms
proof (induction gen1 target closestIdx h rule: advance.induct)
  case (1 gen1 target closestIdx h)
  show ?case
  proof (cases "integral (gen1 ! closestIdx) < target")
    case True
    have "gen1 \<noteq> []" using "1.prems"(2) by auto
    then have "last gen1 = gen1 ! (length gen1 - 1)" by (rule last_conv_nth)
    then have "closestIdx \<noteq> length gen1 - 1"
      using True "1.prems"(1) by auto
    then have lt: "Suc closestIdx < length gen1" using "1.prems" by simp
    let ?h = "if heading (gen1 ! closestIdx) \<noteq> None then heading (gen1 ! closestIdx) else h"
    from "1.IH"[OF "1.prems"(2) True "1.prems"(1) lt]
    obtain idx' h' where r: "advance gen1 target (Suc closestIdx) ?h = Inr (idx', h')"
      "Suc closestIdx \<le> idx'" "idx' < length gen1" "\<not> integral (gen1 ! idx') < target"
      "Suc closestIdx < idx' \<longrightarrow> integral (gen1 ! (idx' - 1)) < target"
      by blast
    have "integral (gen1 ! (idx' - 1)) < target"
    proof (cases "Suc closestIdx < idx'")
      case True
      then show ?thesis using r(5) by simp
    next
      case False
      then have "idx' - 1 = closestIdx" using r(2) by simp
      then show ?thesis using True by simp
    qed
    moreover have "advance gen1 target closestIdx h = Inr (idx', h')"
      using "1.prems"(2) True r(1) by (subst advance.simps) simp
    ultimately show ?thesis using r by auto
  next
    case False
    then show ?thesis using "1.prems" by (subst advance.simps) simp
  qed
qed

text \<open>
  One round of the loop of the second pass, on finite knots of the first pass whose first
  two are at different travelled distances. \<open>closestIdx\<close> stays within the array, the two
  knots around the target are at different distances, and the knot handed to
  \<open>calculateSpeed\<close> has a finite spacing.
\<close>

lemma pass2_step_ok:
  assumes fin: "\<forall>k \<in> set gen1. finite_knot k"
    and lastP: "integral (last gen1) = Fin P" and P: "0 < P"
    and g01: "integral (gen1 ! 0) < integral (gen1 ! 1)"
    and tau: "0 \<le> \<tau>" "\<tau> < 1"
    and idx: "1 \<le> idx" "idx < length gen1"
    and J: "idx = 1 \<or> integral (gen1 ! (idx - 1)) < Fin (\<tau> * P)"
  shows "\<exists>idx' p3. pass2_step gen1 sc (Fin P) (Fin \<tau>) idx = Inr (idx', calculateSpeed sc (Fin P) p3)
           \<and> idx \<le> idx' \<and> idx' < length gen1
           \<and> (idx' = 1 \<or> integral (gen1 ! (idx' - 1)) < Fin (\<tau> * P))
           \<and> resampled (Fin P) p3"
proof -
  have lt1: "\<tau> * P < 1 * P" using tau P by (simp only: mult_less_cancel_right_pos)
  then have below: "\<not> integral (last gen1) < Fin (\<tau> * P)" using lastP by simp
  from advance_ok[OF below idx(2), of None]
  obtain idx' h' where a: "advance gen1 (Fin (\<tau> * P)) idx None = Inr (idx', h')"
    "idx \<le> idx'" "idx' < length gen1" "\<not> integral (gen1 ! idx') < Fin (\<tau> * P)"
    "idx < idx' \<longrightarrow> integral (gen1 ! (idx' - 1)) < Fin (\<tau> * P)"
    by blast
  have pos: "idx' \<noteq> 0" using idx a(2) by simp
  have J': "idx' = 1 \<or> integral (gen1 ! (idx' - 1)) < Fin (\<tau> * P)"
    using a(2,5) J by (cases "idx < idx'") auto
  have "gen1 ! (idx' - 1) \<in> set gen1" "gen1 ! idx' \<in> set gen1" using a(3) by auto
  then have f1: "finite_knot (gen1 ! (idx' - 1))" and f2: "finite_knot (gen1 ! idx')"
    using fin by auto
  from f1 obtain a1 b1 d1 j1 where p1: "x (gen1 ! (idx' - 1)) = Fin a1"
    "y (gen1 ! (idx' - 1)) = Fin b1" "delta (gen1 ! (idx' - 1)) = Fin d1"
    "integral (gen1 ! (idx' - 1)) = Fin j1"
    by (rule finite_knotD)
  from f2 obtain a2 b2 d2 j2 where p2: "x (gen1 ! idx') = Fin a2" "y (gen1 ! idx') = Fin b2"
    "delta (gen1 ! idx') = Fin d2" "integral (gen1 ! idx') = Fin j2"
    by (rule finite_knotD)
  have ne: "j2 - j1 \<noteq> 0"
  proof (cases "idx' = 1")
    case True
    then show ?thesis using g01 p1 p2 by simp
  next
    case False
    then have "j1 < \<tau> * P" using J' p1 by simp
    moreover have "\<tau> * P \<le> j2" using a(4) p2 by simp
    ultimately show ?thesis by simp
  qed
  let ?r = "(\<tau> * P - j1) / (j2 - j1)"
  let ?p3 = "new_Knot (Fin (a1 + (a2 - a1) * ?r)) (Fin (b1 + (b2 - b1) * ?r))
               (Fin (d1 + (d2 - d1) * ?r)) (Fin (\<tau> * P)) (Fin 0) h'"
  have step: "pass2_step gen1 sc (Fin P) (Fin \<tau>) idx = Inr (idx', calculateSpeed sc (Fin P) ?p3)"
    using a(1) pos p1 p2 ne by (simp add: pass2_step_def Let_def)
  have ge: "0 \<le> \<tau> * P" using tau P by simp
  have lt: "\<tau> * P < P" using lt1 by simp
  have "resampled (Fin P) ?p3" using ge lt by (simp add: resampled_def new_Knot_def)
  with step a(2,3) J' show ?thesis by blast
qed

text \<open>
  The loop of the second pass ends when its interval is positive: the number of rounds
  left, \<open>\<lceil>(1 - t) / interval\<rceil>\<close>, goes down in every round. It returns the knots it was
  given followed by the knots it made, each of them from \<open>calculateSpeed\<close>.
\<close>

lemma pass2_loop_ok:
  assumes fin: "\<forall>k \<in> set gen1. finite_knot k"
    and lastP: "integral (last gen1) = Fin P" and P: "0 < P"
    and g01: "integral (gen1 ! 0) < integral (gen1 ! 1)"
    and dt: "0 < dt"
  shows "0 \<le> \<tau> \<Longrightarrow> 1 \<le> idx \<Longrightarrow> idx < length gen1
         \<Longrightarrow> idx = 1 \<or> integral (gen1 ! (idx - 1)) < Fin (\<tau> * P)
         \<Longrightarrow> \<exists>new. pass2_loop gen1 sc (Fin P) (Fin dt) (Fin \<tau>) idx gen2 = Some (Inr (gen2 @ new))
                 \<and> (\<forall>k \<in> set new. \<exists>p. k = calculateSpeed sc (Fin P) p \<and> resampled (Fin P) p)
                 \<and> (\<tau> < 1 \<longrightarrow>
                      (\<exists>rest. new = snd (projr (pass2_step gen1 sc (Fin P) (Fin \<tau>) idx)) # rest))"
proof (induction "nat \<lceil>(1 - \<tau>) / dt\<rceil>" arbitrary: \<tau> idx gen2 rule: less_induct)
  case less
  show ?case
  proof (cases "\<tau> < 1")
    case False
    then have "pass2_loop gen1 sc (Fin P) (Fin dt) (Fin \<tau>) idx gen2 = Some (Inr gen2)"
      by (subst pass2_loop.simps) simp
    then show ?thesis using False by simp
  next
    case True
    from pass2_step_ok[OF fin lastP P g01 less.prems(1) True less.prems(2,3,4)]
    obtain idx' p3 where
      st: "pass2_step gen1 sc (Fin P) (Fin \<tau>) idx = Inr (idx', calculateSpeed sc (Fin P) p3)"
      "idx \<le> idx'" "idx' < length gen1"
      "idx' = 1 \<or> integral (gen1 ! (idx' - 1)) < Fin (\<tau> * P)" "resampled (Fin P) p3"
      by blast
    have pos: "0 < (1 - \<tau>) / dt" using True dt by simp
    have "(1 - (\<tau> + dt)) / dt = (1 - \<tau>) / dt - 1" using dt by (simp add: field_simps)
    then have "\<lceil>(1 - (\<tau> + dt)) / dt\<rceil> = \<lceil>(1 - \<tau>) / dt\<rceil> - 1" by simp
    moreover have "0 < \<lceil>(1 - \<tau>) / dt\<rceil>" using pos by simp
    ultimately have dec: "nat \<lceil>(1 - (\<tau> + dt)) / dt\<rceil> < nat \<lceil>(1 - \<tau>) / dt\<rceil>" by simp
    have mono: "\<tau> * P \<le> (\<tau> + dt) * P" using dt P by (simp add: algebra_simps)
    have J: "idx' = 1 \<or> integral (gen1 ! (idx' - 1)) < Fin ((\<tau> + dt) * P)"
    proof (cases "idx' = 1")
      case False
      with st(4) have lt: "integral (gen1 ! (idx' - 1)) < Fin (\<tau> * P)" by simp
      then show ?thesis using mono by (cases "integral (gen1 ! (idx' - 1))") auto
    qed simp
    have "0 \<le> \<tau> + dt" "1 \<le> idx'" using less.prems(1,2) dt st(2) by auto
    from less.hyps[OF dec this st(3) J, of "gen2 @ [calculateSpeed sc (Fin P) p3]"]
    obtain new where
      n: "pass2_loop gen1 sc (Fin P) (Fin dt) (Fin (\<tau> + dt)) idx'
            (gen2 @ [calculateSpeed sc (Fin P) p3])
          = Some (Inr ((gen2 @ [calculateSpeed sc (Fin P) p3]) @ new))"
        "\<forall>k \<in> set new. \<exists>p. k = calculateSpeed sc (Fin P) p \<and> resampled (Fin P) p"
      by blast
    have "pass2_loop gen1 sc (Fin P) (Fin dt) (Fin \<tau>) idx gen2
            = Some (Inr (gen2 @ calculateSpeed sc (Fin P) p3 # new))"
      using True st(1) n(1) by (subst pass2_loop.simps) simp
    then show ?thesis using n(2) st(5) st(1) by auto
  qed
qed

text \<open>The first round, at \<open>t = 0\<close>, gives the first knot of the first pass back.\<close>

lemma pass2_first_step:
  assumes "2 \<le> length gen1" "finite_knot (gen1 ! 0)" "finite_knot (gen1 ! 1)"
    and "integral (gen1 ! 0) = Fin 0" "Fin 0 < integral (gen1 ! 1)"
  shows "pass2_step gen1 sc (Fin P) (Fin 0) 1 =
           Inr (1, calculateSpeed sc (Fin P)
                     (new_Knot (x (gen1 ! 0)) (y (gen1 ! 0)) (delta (gen1 ! 0)) (Fin 0) (Fin 0) None))"
proof -
  from assms(2) obtain a0 b0 d0 j0 where k0: "x (gen1 ! 0) = Fin a0" "y (gen1 ! 0) = Fin b0"
    "delta (gen1 ! 0) = Fin d0" "integral (gen1 ! 0) = Fin j0" by (rule finite_knotD)
  from assms(3) obtain a1 b1 d1 j1 where k1: "x (gen1 ! 1) = Fin a1" "y (gen1 ! 1) = Fin b1"
    "delta (gen1 ! 1) = Fin d1" "integral (gen1 ! 1) = Fin j1" by (rule finite_knotD)
  have "advance gen1 (Fin 0) 1 None = Inr (1, None)"
    using assms(1,5) k1 by (subst advance.simps) simp
  then show ?thesis using assms(4,5) k0 k1
    by (simp add: pass2_step_def Let_def)
qed

lemma pass2_ok:
  assumes fin: "\<forall>k \<in> set gen1. finite_knot k"
    and lastP: "integral (last gen1) = Fin P" and P: "0 < P"
    and g01: "integral (gen1 ! 0) < integral (gen1 ! 1)"
    and len: "2 \<le> length gen1"
    and kd: "knotDensity gc = Fin kd" "0 < kd"
    and sp: "splines this \<noteq> []" and lc: "last_control (last (splines this)) = Some cl"
  shows "\<exists>rest. pass2 gc sc this gen1 (Fin P) =
            Some (Inr (((snd (projr (pass2_step gen1 sc (Fin P) (Fin 0) 1)))
                          \<lparr>heading := heading (gen1 ! 0)\<rparr> # rest)
                        @ [new_Knot (get_x cl) (get_y cl) (Fin 0) (Fin 0) (Fin 0) (get_heading cl)]))
          \<and> (\<forall>k \<in> set (snd (projr (pass2_step gen1 sc (Fin P) (Fin 0) 1)) # rest).
                 \<exists>p. k = calculateSpeed sc (Fin P) p \<and> resampled (Fin P) p)"
proof -
  have dt: "0 < kd / P" using kd P by simp
  have ti: "Fin 1 / (Fin P / knotDensity gc) = Fin (kd / P)" using kd P by simp
  have "(0::real) \<le> 0" "(1::nat) \<le> 1" "1 < length gen1" using len by auto
  from pass2_loop_ok[OF fin lastP P g01 dt this, of sc "[]"]
  obtain new rest where l: "pass2_loop gen1 sc (Fin P) (Fin (kd / P)) (Fin 0) 1 [] = Some (Inr new)"
    "\<forall>k \<in> set new. \<exists>p. k = calculateSpeed sc (Fin P) p \<and> resampled (Fin P) p"
    "new = snd (projr (pass2_step gen1 sc (Fin P) (Fin 0) 1)) # rest"
    by auto
  show ?thesis
    using l sp lc by (auto simp: pass2_def ti Let_def)
qed

text \<open>What the first pass returns, for use in the second: the last spline has controls,
  and the total travel distance is the travelled distance of the last knot.\<close>

lemma pass1_result:
  assumes "pass1 gc sc ss [] (Fin 0) = Some (Inr (gen1, p))" "2 \<le> length gen1"
  shows "ss \<noteq> [] \<and> last_control (last ss) = Some (last (controls (last ss)))
         \<and> integral (last gen1) = p \<and> not_negative p"
proof -
  have ne: "ss \<noteq> []" using assms by (cases ss) auto
  then have "last ss \<in> set ss" by simp
  with pass1_controls[OF assms(1)] have "controls (last ss) \<noteq> []" by blast
  then have "last_control (last ss) = Some (last (controls (last ss)))"
    by (simp add: last_control_def)
  moreover have "not_negative p \<and> (gen1 \<noteq> [] \<longrightarrow> p = integral (last gen1))"
    by (rule pass1_last[OF assms(1)]) (simp_all add: not_negative_def)
  moreover have "gen1 \<noteq> []" using assms(2) by auto
  ultimately show ?thesis using ne by auto
qed

section \<open>The example paths\<close>

lemmas ex_points = ex_A_def ex_B_def ex_C_def ex_A'_def ex_C'_def

lemmas spline_eval = Spline_calculateKnots_def calculateBezierCurveKnots_def
      bezier_loop.simps bezier_step_def distance_def Let_def new_Knot_def
      last_control_def set_first_heading_def first_def

lemmas pass2_eval = Path_calculateKnots_def pass2_def pass2_loop.simps pass2_step_def
      advance.simps Let_def calculateSpeed_def strict_ne_def strict_eq_def Math_min_def
      new_Knot_def last_control_def

lemma bz_AB: "bezier_point [ex_A, ex_B] (Fin t) = \<lparr>x = Fin (300 * t), y = Fin 0\<rparr>"
  by (simp add: bezier_point_2[of _ 0 0 _ 300 0] ex_points)

lemma bz_BC: "bezier_point [ex_B, ex_C] (Fin t) = \<lparr>x = Fin 300, y = Fin (400 * t)\<rparr>"
  by (simp add: bezier_point_2[of _ 300 0 _ 300 400] ex_points)

lemma bz_AA: "bezier_point [ex_A, ex_A'] (Fin t) = \<lparr>x = Fin 0, y = Fin 0\<rparr>"
  by (simp add: bezier_point_2[of _ 0 0 _ 0 0] ex_points)

lemma bz_AC: "bezier_point [ex_A', ex_C'] (Fin t) = \<lparr>x = Fin (4 * t), y = Fin 0\<rparr>"
  by (simp add: bezier_point_2[of _ 0 0 _ 4 0] ex_points)

lemma ex_coords [simp]:
  "get_x ex_A = Fin 0" "get_y ex_A = Fin 0" "get_heading ex_A = Some (Fin 0)"
  "get_x ex_B = Fin 300" "get_y ex_B = Fin 0" "get_heading ex_B = Some (Fin 90)"
  "get_x ex_C = Fin 300" "get_y ex_C = Fin 400" "get_heading ex_C = Some (Fin 180)"
  "get_x ex_A' = Fin 0" "get_y ex_A' = Fin 0" "get_heading ex_A' = Some (Fin 90)"
  "get_x ex_C' = Fin 4" "get_y ex_C' = Fin 0" "get_heading ex_C' = Some (Fin 180)"
  by (simp_all add: ex_points)

lemma knots_AB: "Spline_calculateKnots ex_gc ex_sc ex_AB (Fin 0) =
    Some (Inr [new_Knot (Fin 0) (Fin 0) (Fin 0) (Fin 0) (Fin 0) (Some (Fin 0)),
               new_Knot (Fin 300) (Fin 0) (Fin 200) (Fin 300) (Fin 0) None,
               new_Knot (Fin 300) (Fin 0) (Fin 0) (Fin 300) (Fin 0) (Some (Fin 90))])"
  by (simp add: spline_eval ex_gc_def ex_AB_def bz_AB)

lemma knots_BC: "Spline_calculateKnots ex_gc ex_sc ex_BC (Fin 300) =
    Some (Inr [new_Knot (Fin 300) (Fin 0) (Fin 0) (Fin 300) (Fin 0) (Some (Fin 90)),
               new_Knot (Fin 300) (Fin 400) (Fin 200) (Fin 700) (Fin 0) None,
               new_Knot (Fin 300) (Fin 400) (Fin 0) (Fin 700) (Fin 0) (Some (Fin 180))])"
  by (simp add: spline_eval ex_gc_def ex_BC_def bz_BC)

lemma knots_AA: "Spline_calculateKnots ex_gc ex_sc ex_AA (Fin 0) =
    Some (Inr [new_Knot (Fin 0) (Fin 0) NaN (Fin 0) (Fin 0) (Some (Fin 0)),
               new_Knot (Fin 0) (Fin 0) NaN (Fin 0) (Fin 0) None,
               new_Knot (Fin 0) (Fin 0) NaN (Fin 0) (Fin 0) (Some (Fin 90))])"
  by (simp add: spline_eval ex_gc_def ex_AA_def bz_AA)

lemma knots_AC: "Spline_calculateKnots ex_gc ex_sc ex_AC (Fin 0) =
    Some (Inr [new_Knot (Fin 0) (Fin 0) (Fin 0) (Fin 0) (Fin 0) (Some (Fin 90)),
               new_Knot (Fin 4) (Fin 0) (Fin 200) (Fin 4) (Fin 0) None,
               new_Knot (Fin 4) (Fin 0) (Fin 0) (Fin 4) (Fin 0) (Some (Fin 180))])"
  by (simp add: spline_eval ex_gc_def ex_AC_def bz_AC)

lemma pass1_ex_path: "pass1 ex_gc ex_sc (splines ex_path) [] (Fin 0) = Some (Inr (ex_gen1, Fin 700))"
  by (simp add: ex_path_def knots_AB knots_BC ex_gen1_def new_Knot_def)

lemma pass1_point_path: "pass1 ex_gc ex_sc (splines ex_point_path) [] (Fin 0) =
    Some (Inr ([new_Knot (Fin 0) (Fin 0) NaN (Fin 0) (Fin 0) (Some (Fin 0)),
                new_Knot (Fin 0) (Fin 0) NaN (Fin 0) (Fin 0) None,
                new_Knot (Fin 0) (Fin 0) NaN (Fin 0) (Fin 0) (Some (Fin 90))], Fin 0))"
  by (simp add: ex_point_path_def knots_AA new_Knot_def)


lemma bz_BB: "bezier_point [ex_B, ex_B'] (Fin t) = \<lparr>x = Fin 300, y = Fin 0\<rparr>"
  by (simp add: bezier_point_2[of _ 300 0 _ 300 0] ex_points ex_B'_def)

lemma bz_B'C: "bezier_point [ex_B', ex_C] (Fin t) = \<lparr>x = Fin 300, y = Fin (400 * t)\<rparr>"
  by (simp add: bezier_point_2[of _ 300 0 _ 300 400] ex_points ex_B'_def)

lemma ex_coords' [simp]:
  "get_x ex_B' = Fin 300" "get_y ex_B' = Fin 0" "get_heading ex_B' = Some (Fin 45)"
  by (simp_all add: ex_B'_def)

lemma knots_BB: "Spline_calculateKnots ex_gc ex_sc ex_BB (Fin 300) =
    Some (Inr [new_Knot (Fin 300) (Fin 0) NaN (Fin 300) (Fin 0) (Some (Fin 90)),
               new_Knot (Fin 300) (Fin 0) NaN (Fin 300) (Fin 0) None,
               new_Knot (Fin 300) (Fin 0) NaN (Fin 300) (Fin 0) (Some (Fin 45))])"
  by (simp add: spline_eval ex_gc_def ex_BB_def bz_BB)

lemma knots_B'C: "Spline_calculateKnots ex_gc ex_sc ex_B'C (Fin 300) =
    Some (Inr [new_Knot (Fin 300) (Fin 0) (Fin 0) (Fin 300) (Fin 0) (Some (Fin 45)),
               new_Knot (Fin 300) (Fin 400) (Fin 200) (Fin 700) (Fin 0) None,
               new_Knot (Fin 300) (Fin 400) (Fin 0) (Fin 700) (Fin 0) (Some (Fin 180))])"
  by (simp add: spline_eval ex_gc_def ex_B'C_def bz_B'C)

lemma pass1_stop_path: "pass1 ex_gc ex_sc (splines ex_stop_path) [] (Fin 0) =
    Some (Inr ([new_Knot (Fin 0) (Fin 0) (Fin 0) (Fin 0) (Fin 0) (Some (Fin 0)),
                new_Knot (Fin 300) (Fin 0) (Fin 200) (Fin 300) (Fin 0) None,
                new_Knot (Fin 300) (Fin 0) (Fin 0) (Fin 300) (Fin 0) (Some (Fin 90)),
                new_Knot (Fin 300) (Fin 0) NaN (Fin 300) (Fin 0) None,
                new_Knot (Fin 300) (Fin 0) NaN (Fin 300) (Fin 0) (Some (Fin 45)),
                new_Knot (Fin 300) (Fin 400) (Fin 200) (Fin 700) (Fin 0) None,
                new_Knot (Fin 300) (Fin 400) (Fin 0) (Fin 700) (Fin 0) (Some (Fin 180))], Fin 700))"
  by (simp add: ex_stop_path_def knots_AB knots_BB knots_B'C new_Knot_def)


lemma speed_within_heading [simp]:
  "speed_within sc (k\<lparr>heading := h\<rparr>) = speed_within sc k"
  by (simp add: speed_within_def)


section \<open>The knots of a path\<close>

text \<open>
  Claim C4, on the path whose first line has length zero (both ends at (0, 0)) and whose
  second line goes on to (4, 0). The first pass keeps the first knot of a spline while
  the total travel distance is 0, which is still so after the first line: the first knot
  of the second line is kept, and the knot of the boundary, at (0, 0) with the heading
  90 of the shared end point, stands twice in the result, once as the last knot of the
  first line and once as the first knot of the second. The result has all six knots of
  the two lines.
\<close>

theorem C4_first_knot_kept_after_empty_line: "pass1 ex_gc ex_sc [ex_AA, ex_AC] [] (Fin 0) =
    Some (Inr ([new_Knot (Fin 0) (Fin 0) NaN (Fin 0) (Fin 0) (Some (Fin 0)),
                new_Knot (Fin 0) (Fin 0) NaN (Fin 0) (Fin 0) None,
                new_Knot (Fin 0) (Fin 0) NaN (Fin 0) (Fin 0) (Some (Fin 90)),
                new_Knot (Fin 0) (Fin 0) (Fin 0) (Fin 0) (Fin 0) (Some (Fin 90)),
                new_Knot (Fin 4) (Fin 0) (Fin 200) (Fin 4) (Fin 0) None,
                new_Knot (Fin 4) (Fin 0) (Fin 0) (Fin 4) (Fin 0) (Some (Fin 180))], Fin 4))"
  by (simp add: knots_AA knots_AC new_Knot_def)


text \<open>
  Claim C10. For the knots and the total travel distance that the first pass returns,
  when there are at least two knots: the travelled distance of the last knot is the total
  travel distance, and for every \<open>t < 1\<close> and every \<open>closestIdx\<close> from 1 up to the last
  index, the loop that moves \<open>closestIdx\<close> forward ends without reading past the end of
  the array, at an index that is at most the last one, so that \<open>gen1[closestIdx]\<close> and
  \<open>gen1[closestIdx - 1]\<close> are both within the array.
\<close>

theorem C10_bracket_within_array:
  assumes "pass1 gc sc ss [] (Fin 0) = Some (Inr (gen1, pathTTD))"
    and "2 \<le> length gen1" and "t < Fin 1"
    and "1 \<le> closestIdx" and "closestIdx < length gen1"
  shows "integral (last gen1) = pathTTD
       \<and> (\<exists>idx' h'. advance gen1 (t * pathTTD) closestIdx h = Inr (idx', h')
             \<and> closestIdx \<le> idx' \<and> idx' < length gen1 \<and> idx' - 1 < length gen1)"
proof -
  from pass1_result[OF assms(1,2)]
  have l: "integral (last gen1) = pathTTD" and nn: "not_negative pathTTD" by auto
  have "\<not> integral (last gen1) < t * pathTTD"
    using mult_below[OF assms(3) nn] l by simp
  from advance_ok[OF this assms(5), of h] l show ?thesis by auto
qed


text \<open>Claim C10 on the example path, at \<open>t = 4/7\<close> with \<open>closestIdx = 1\<close>.\<close>

theorem C10_witness:
  "integral (last ex_gen1) = Fin 700
   \<and> (\<exists>idx' h'. advance ex_gen1 (Fin (4 / 7) * Fin 700) 1 None = Inr (idx', h')
         \<and> 1 \<le> idx' \<and> idx' < length ex_gen1 \<and> idx' - 1 < length ex_gen1)"
  using C10_bracket_within_array [of ex_gc ex_sc "splines ex_path" ex_gen1 "Fin 700" "Fin (4 / 7)" 1 None]
    pass1_ex_path
  by (simp add: ex_gen1_def)

text \<open>
  With the numbers of this theory, which are exact: when the first pass returns at least
  two knots that are finite, the first two at different travelled distances, over a total
  travel distance that is positive, with a positive knot density and a finite speed
  configuration with \<open>speedLimit.from \<le> speedLimit.to\<close>, \<open>calculateKnots\<close> returns, the speed
  of every knot but the last is between \<open>speedLimit.from\<close> and \<open>speedLimit.to\<close>, and the speed
  of the last knot is 0.
\<close>

lemma speed_within_limit_exact:
  assumes p1: "pass1 gc sc (splines this) [] (Fin 0) = Some (Inr (gen1, Fin P))"
    and len: "2 \<le> length gen1" and P: "0 < P"
    and fin: "\<forall>k \<in> set gen1. finite_knot k"
    and g01: "integral (gen1 ! 0) < integral (gen1 ! 1)"
    and kd: "knotDensity gc = Fin kd" "0 < kd"
    and sl: "range_from (speedLimit sc) = Fin lo" "range_to (speedLimit sc) = Fin hi" "lo \<le> hi"
    and ar: "is_Fin (range_from (applicationRange sc))" "is_Fin (range_to (applicationRange sc))"
    and tr: "is_Fin (range_from (transitionRange sc))" "is_Fin (range_to (transitionRange sc))"
  shows "\<exists>gen2. Path_calculateKnots gc sc this = Some (Inr (gen2, this\<lparr>cachedKnots := gen2\<rparr>))
           \<and> (\<forall>k \<in> set (butlast gen2). speed_within sc k)
           \<and> speed (last gen2) = Fin 0"
proof -
  from pass1_result[OF p1 len]
  have sp: "splines this \<noteq> []"
    and lc: "last_control (last (splines this)) = Some (last (controls (last (splines this))))"
    and lastP: "integral (last gen1) = Fin P" by auto
  let ?cl = "last (controls (last (splines this)))"
  let ?p0 = "snd (projr (pass2_step gen1 sc (Fin P) (Fin 0) 1))"
  let ?final = "new_Knot (get_x ?cl) (get_y ?cl) (Fin 0) (Fin 0) (Fin 0) (get_heading ?cl)"
  from pass2_ok[OF fin lastP P g01 len kd sp lc, of sc]
  obtain rest where r: "pass2 gc sc this gen1 (Fin P) =
      Some (Inr ((?p0\<lparr>heading := heading (gen1 ! 0)\<rparr> # rest) @ [?final]))"
    and all: "\<forall>k \<in> set (?p0 # rest). \<exists>p. k = calculateSpeed sc (Fin P) p \<and> resampled (Fin P) p"
    by blast
  let ?gen2 = "(?p0\<lparr>heading := heading (gen1 ! 0)\<rparr> # rest) @ [?final]"
  have res: "Path_calculateKnots gc sc this = Some (Inr (?gen2, this\<lparr>cachedKnots := ?gen2\<rparr>))"
    using p1 len r by (simp add: Path_calculateKnots_def)
  have w: "\<forall>k \<in> set (?p0 # rest). speed_within sc k"
  proof
    fix k assume "k \<in> set (?p0 # rest)"
    with all obtain p where "k = calculateSpeed sc (Fin P) p" "resampled (Fin P) p" by blast
    then show "speed_within sc k" using resampled_speed_within[OF sl ar tr] by simp
  qed
  have "\<forall>k \<in> set (butlast ?gen2). speed_within sc k"
    using w by (simp add: butlast_append)
  moreover have "speed (last ?gen2) = Fin 0" by (simp add: new_Knot_def)
  ultimately show ?thesis using res by blast
qed

lemma speed_within_kept:
  assumes "speed_within sc k" "is_Fin (range_from (speedLimit sc))" "is_Fin (range_to (speedLimit sc))"
  shows "speed_kept sc k"
  using assms by (cases "speed k") (auto simp: speed_within_def speed_kept_def is_Fin_iff)




text \<open>
  Claim C5, as the code has it. Let the first spline of the path be a line or a cubic curve
  with finite controls, the interval of the first pass be at most 1, the first pass return
  finite knots over a positive total travel distance, the second of them at a positive
  travelled distance, and the knot density be positive. Then \<open>calculateKnots\<close> returns;
  its first knot has the coordinates and the heading of the first control of the path and
  the speed that \<open>calculateSpeed\<close> gives at the travelled distance 0; and its last knot is
  at the last control of the path, with its heading, and with speed, spacing and travelled
  distance 0.
\<close>

theorem C5_first_and_last_knot:
  assumes sp: "splines this = s0 # others"
    and len0: "length (controls s0) = 2 \<or> length (controls s0) = 4"
    and fin0: "\<forall>c \<in> set (controls s0). \<exists>a b. get_x c = Fin a \<and> get_y c = Fin b"
    and ti: "toCentimeter gc (knotDensity gc) / Fin 200 \<le> Fin 1"
    and p1: "pass1 gc sc (splines this) [] (Fin 0) = Some (Inr (gen1, Fin P))"
    and P: "0 < P"
    and fin: "\<forall>k \<in> set gen1. finite_knot k"
    and g1: "Fin 0 < integral (gen1 ! 1)"
    and kd: "knotDensity gc = Fin kd" "0 < kd"
  shows "\<exists>gen2. Path_calculateKnots gc sc this = Some (Inr (gen2, this\<lparr>cachedKnots := gen2\<rparr>))
           \<and> x (hd gen2) = get_x (hd (controls s0)) \<and> y (hd gen2) = get_y (hd (controls s0))
           \<and> heading (hd gen2) = get_heading (hd (controls s0))
           \<and> speed (hd gen2) =
                speed (calculateSpeed sc (Fin P)
                         (new_Knot (get_x (hd (controls s0))) (get_y (hd (controls s0)))
                            (delta (gen1 ! 0)) (Fin 0) (Fin 0) None))
           \<and> last gen2 =
                new_Knot (get_x (last (controls (last (splines this)))))
                         (get_y (last (controls (last (splines this)))))
                         (Fin 0) (Fin 0) (Fin 0)
                         (get_heading (last (controls (last (splines this)))))"
proof -
  from pass1_head[OF p1[unfolded sp]]
  obtain ks where ks: "Spline_calculateKnots gc sc s0 (Fin 0) = Some (Inr ks)"
    and len: "2 \<le> length gen1" and h: "gen1 ! 0 = ks ! 0" by blast
  from Spline_calculateKnots_head[OF ks len0 fin0 ti] h
  have k0: "x (gen1 ! 0) = get_x (hd (controls s0))" "y (gen1 ! 0) = get_y (hd (controls s0))"
    "integral (gen1 ! 0) = Fin 0" "heading (gen1 ! 0) = get_heading (hd (controls s0))"
    by simp_all
  have g01: "integral (gen1 ! 0) < integral (gen1 ! 1)" using k0(3) g1 by simp
  from pass1_result[OF p1 len]
  have spn: "splines this \<noteq> []"
    and lc: "last_control (last (splines this)) = Some (last (controls (last (splines this))))"
    and lastP: "integral (last gen1) = Fin P" by auto
  let ?cl = "last (controls (last (splines this)))"
  let ?p0 = "snd (projr (pass2_step gen1 sc (Fin P) (Fin 0) 1))"
  let ?final = "new_Knot (get_x ?cl) (get_y ?cl) (Fin 0) (Fin 0) (Fin 0) (get_heading ?cl)"
  have "0 < length gen1" "1 < length gen1" using len by auto
  then have "gen1 ! 0 \<in> set gen1" "gen1 ! 1 \<in> set gen1" by (simp_all only: nth_mem)
  then have f0: "finite_knot (gen1 ! 0)" "finite_knot (gen1 ! 1)" using fin by auto
  have p0: "?p0 = calculateSpeed sc (Fin P)
                    (new_Knot (x (gen1 ! 0)) (y (gen1 ! 0)) (delta (gen1 ! 0)) (Fin 0) (Fin 0) None)"
    by (simp only: pass2_first_step[OF len f0 k0(3) g1] sum.sel snd_conv)
  from pass2_ok[OF fin lastP P g01 len kd spn lc, of sc]
  obtain rest where r: "pass2 gc sc this gen1 (Fin P) =
      Some (Inr ((?p0\<lparr>heading := heading (gen1 ! 0)\<rparr> # rest) @ [?final]))"
    by blast
  let ?gen2 = "(?p0\<lparr>heading := heading (gen1 ! 0)\<rparr> # rest) @ [?final]"
  have res: "Path_calculateKnots gc sc this = Some (Inr (?gen2, this\<lparr>cachedKnots := ?gen2\<rparr>))"
    using p1 len r by (simp add: Path_calculateKnots_def)
  have hd2: "hd ?gen2 = (calculateSpeed sc (Fin P)
                    (new_Knot (x (gen1 ! 0)) (y (gen1 ! 0)) (delta (gen1 ! 0)) (Fin 0) (Fin 0) None))
                  \<lparr>heading := heading (gen1 ! 0)\<rparr>"
    by (simp only: p0 list.sel append_Cons)
  have "x (hd ?gen2) = get_x (hd (controls s0))" "y (hd ?gen2) = get_y (hd (controls s0))"
    "heading (hd ?gen2) = get_heading (hd (controls s0))"
    unfolding hd2 by (simp_all add: k0 new_Knot_def)
  moreover have "speed (hd ?gen2) = speed (calculateSpeed sc (Fin P)
                         (new_Knot (get_x (hd (controls s0))) (get_y (hd (controls s0)))
                            (delta (gen1 ! 0)) (Fin 0) (Fin 0) None))"
    unfolding hd2 by (simp add: k0)
  moreover have "last ?gen2 = ?final" by simp
  ultimately show ?thesis using res by blast
qed

text \<open>Claim C5 on the example path.\<close>

theorem C5_witness:
  "\<exists>gen2. Path_calculateKnots ex_gc ex_sc ex_path = Some (Inr (gen2, ex_path\<lparr>cachedKnots := gen2\<rparr>))
      \<and> x (hd gen2) = Fin 0 \<and> y (hd gen2) = Fin 0 \<and> heading (hd gen2) = Some (Fin 0)
      \<and> speed (hd gen2) =
            speed (calculateSpeed ex_sc (Fin 700)
                     (new_Knot (Fin 0) (Fin 0) (Fin 0) (Fin 0) (Fin 0) None))
      \<and> last gen2 = new_Knot (Fin 300) (Fin 400) (Fin 0) (Fin 0) (Fin 0) (Some (Fin 180))"
  using C5_first_and_last_knot [of ex_path ex_AB "[ex_BC]" ex_gc ex_sc ex_gen1 700 200]
    pass1_ex_path
  by (simp add: ex_gen1_def finite_knot_def new_Knot_def ex_gc_def ex_path_def ex_AB_def ex_BC_def)

text \<open>
  Against claim C5 as it is written: on the path of one line whose two ends are both at
  (0, 0), the first pass returns three knots, and the first knot that \<open>calculateKnots\<close>
  returns has the coordinates NaN, not those of the first control.
\<close>

theorem C5_path_of_length_zero:
  "Path_calculateKnots ex_gc ex_sc ex_point_path =
    Some (Inr ([new_Knot NaN NaN NaN (Fin 0) NaN (Some (Fin 0)),
                new_Knot (Fin 0) (Fin 0) (Fin 0) (Fin 0) (Fin 0) (Some (Fin 90))],
               ex_point_path\<lparr>cachedKnots :=
                 [new_Knot NaN NaN NaN (Fin 0) NaN (Some (Fin 0)),
                  new_Knot (Fin 0) (Fin 0) (Fin 0) (Fin 0) (Fin 0) (Some (Fin 90))]\<rparr>))
   \<and> x (new_Knot NaN NaN NaN (Fin 0) NaN (Some (Fin 0))) \<noteq> get_x (hd (controls ex_AA))"
  using pass1_point_path
  by (simp add: ex_point_path_def pass2_eval ex_gc_def ex_sc_def ex_AA_def)

section \<open>The command history\<close>

lemma execute_redo_empty:
  assumes "execute ttl c now timeout (h, w) = Inr (h', w')"
  shows "redoHistory h' = []"
  using assms
  by (auto simp: execute_def open_execution_def Let_def split: sum.splits prod.splits if_splits)

lemma isModified_save: "fst (isModified (save h)) = False"
  by (simp add: isModified_def save_def commit_def Let_def split: option.splits)

text \<open>After \<open>execute\<close>, a commit leaves on top of the history either the command just run or,
  when it was merged, the command of the pending entry.\<close>

lemma execute_top:
  assumes "execute ttl c now timeout (h, w) = Inr (h', w')"
  shows "top_of (history (commit h')) = Some c
       \<or> (\<exists>le. lastExecution h = Some le \<and> top_of (history (commit h')) = Some (command le))"
  using assms
  by (auto simp: execute_def open_execution_def commit_def top_of_def Let_def may_merge_def
      split: sum.splits prod.splits if_splits option.splits)

lemma execute_savedCommand:
  assumes "execute ttl c now timeout (h, w) = Inr (h', w')"
  shows "savedCommand h' = savedCommand h"
  using assms
  by (auto simp: execute_def open_execution_def commit_def Let_def
      split: sum.splits prod.splits if_splits option.splits)

text \<open>After \<open>execute\<close> of a command object that is not the saved one, on a history whose
  pending entry, if there is one, does not hold the saved command either, \<open>isModified\<close>
  returns true.\<close>

lemma isModified_after_execute:
  assumes e: "execute ttl c now timeout (h, w) = Inr (h', w')"
    and c: "savedCommand h \<noteq> Some c"
    and p: "\<forall>le. lastExecution h = Some le \<longrightarrow> savedCommand h \<noteq> Some (command le)"
  shows "fst (isModified h') = True"
proof -
  have s: "savedCommand h' = savedCommand h" using e by (rule execute_savedCommand)
  have "savedCommand (commit h') = savedCommand h'" by (simp add: commit_def split: option.splits)
  with execute_top[OF e] c p s show ?thesis by (auto simp: isModified_def Let_def)
qed

lemma save_fields:
  "lastExecution (save h) = None" "savedCommand (save h) = top_of (history (save h))"
  by (simp_all add: save_def commit_def Let_def split: option.splits)

text \<open>
  Claim C2. Every call of \<open>execute\<close> that returns leaves the redo stack empty. \<open>isModified\<close>
  called right after \<open>save\<close> returns false. After \<open>save\<close> and then an \<open>execute\<close>, which returns,
  of a command object that is not in the history (a command object is executed once),
  \<open>isModified\<close>, which commits the pending entry, returns true. The same holds from any
  state of the history in which the command object executed is not the saved one and the
  pending entry, if there is one, does not hold the saved command.
\<close>

theorem C2_history_law:
  "(execute ttl c now timeout (g, v) = Inr (g', v') \<longrightarrow> redoHistory g' = [])
   \<and> fst (isModified (save h)) = False
   \<and> (execute ttl c now timeout (save h, w) = Inr (h', w') \<and> c \<notin> set (history (save h))
       \<longrightarrow> fst (isModified h') = True)
   \<and> (execute ttl c now timeout (g, v) = Inr (g', v') \<and> savedCommand g \<noteq> Some c
        \<and> (\<forall>le. lastExecution g = Some le \<longrightarrow> savedCommand g \<noteq> Some (command le))
       \<longrightarrow> fst (isModified g') = True)"
proof (intro conjI impI)
  assume "execute ttl c now timeout (g, v) = Inr (g', v')"
  then show "redoHistory g' = []" by (rule execute_redo_empty)
next
  show "fst (isModified (save h)) = False" by (rule isModified_save)
next
  assume a: "execute ttl c now timeout (save h, w) = Inr (h', w') \<and> c \<notin> set (history (save h))"
  then have e: "execute ttl c now timeout (save h, w) = Inr (h', w')" by simp
  have "savedCommand (save h) \<noteq> Some c"
    using a by (auto simp: save_fields top_of_def split: if_splits)
  then show "fst (isModified h') = True"
    using isModified_after_execute[OF e] by (simp add: save_fields)
next
  assume a: "execute ttl c now timeout (g, v) = Inr (g', v') \<and> savedCommand g \<noteq> Some c
        \<and> (\<forall>le. lastExecution g = Some le \<longrightarrow> savedCommand g \<noteq> Some (command le))"
  then show "fst (isModified g') = True"
    using isModified_after_execute[of ttl c now timeout g v g' v'] by blast
qed

text \<open>Claim C2 on a history with a saved command and an undone command on the redo stack:
  after \<open>save()\<close>, \<open>execute\<close> of the new command object 2 empties the redo stack, and
  \<open>isModified\<close>, false before the call, is true after it.\<close>

theorem C2_witness:
  "execute ''Add path'' 2 1000 500 (save ex_history_undone, ex_paths_world)
      = Inr (ex_history_after, ex_paths_world_after)
   \<and> 2 \<notin> set (history (save ex_history_undone))
   \<and> redoHistory (save ex_history_undone) = [1]
   \<and> redoHistory ex_history_after = []
   \<and> fst (isModified (save ex_history_undone)) = False
   \<and> fst (isModified ex_history_after) = True"
  using C2_history_law [of "''Add path''" 2 1000 500 "save ex_history_undone" ex_paths_world
      ex_history_after ex_paths_world_after ex_history_undone ex_paths_world ex_history_after
      ex_paths_world_after]
  by (simp add: execute_def ex_paths_world_def ex_paths_world_after_def ex_history_undone_def
      ex_history_after_def save_def top_of_def may_merge_def open_execution_def commit_def Let_def)

section \<open>Commands: \<open>execute\<close>, \<open>undo\<close>, \<open>redo\<close>\<close>

subsection \<open>Coordinates that rounding leaves as they are\<close>

lemma on_grid_Fin: "on_grid p (Fin r) \<longleftrightarrow> r * 10 ^ p \<in> \<int>"
  by (auto simp: on_grid_def Ints_def)

lemma on_gridE:
  assumes "on_grid p a"
  obtains r where "a = Fin r" "r * 10 ^ p \<in> \<int>"
  using assms by (cases a) (auto simp: on_grid_Fin, auto simp: on_grid_def)

lemma round_to_grid:
  assumes "r * 10 ^ p \<in> \<int>" "p \<le> q"
  shows "round_to q r = r"
proof -
  from assms(1) obtain k :: int where k: "r * 10 ^ p = of_int k" by (auto simp: Ints_def)
  have "r * 10 ^ q = r * 10 ^ p * 10 ^ (q - p)"
    using assms(2) by (simp add: power_add[symmetric])
  then have rq: "r * 10 ^ q = of_int (k * 10 ^ (q - p))" using k by simp
  have "\<bar>r\<bar> * 10 ^ q = \<bar>r * 10 ^ q\<bar>" by (simp add: abs_mult)
  also have "\<dots> = of_int \<bar>k * 10 ^ (q - p)\<bar>" using rq by simp
  finally have m: "\<bar>r\<bar> * 10 ^ q = of_int \<bar>k * 10 ^ (q - p)\<bar>" .
  have "\<lfloor>\<bar>r\<bar> * 10 ^ q + 1 / 2\<rfloor> = \<bar>k * 10 ^ (q - p)\<bar>"
    unfolding m by linarith
  then have "round_to q r = sgn r * (\<bar>r\<bar> * 10 ^ q) / 10 ^ q"
    using m by (simp add: round_to_def)
  also have "\<dots> = sgn r * \<bar>r\<bar>" by simp
  also have "\<dots> = r" by (simp add: sgn_real_def)
  finally show ?thesis .
qed

lemma on_grid_toFixed:
  assumes "on_grid p a" "p \<le> q"
  shows "toFixed q a = a"
proof -
  from assms(1) obtain r where r: "a = Fin r" "r * 10 ^ p \<in> \<int>" by (rule on_gridE)
  then show ?thesis using round_to_grid[OF r(2) assms(2)] by simp
qed

lemma on_grid_add:
  assumes "on_grid p a" "on_grid p b"
  shows "on_grid p (a + b)" "on_grid p (a - b)"
proof -
  from assms(1) obtain r where r: "a = Fin r" "r * 10 ^ p \<in> \<int>" by (rule on_gridE)
  from assms(2) obtain s where s: "b = Fin s" "s * 10 ^ p \<in> \<int>" by (rule on_gridE)
  show "on_grid p (a + b)" using r s by (simp add: on_grid_Fin distrib_right)
  show "on_grid p (a - b)" using r s by (simp add: on_grid_Fin left_diff_distrib)
qed



subsection \<open>\<open>DragControls\<close>\<close>

lemma precision_fixPrecision [simp]: "precision (fixPrecision v) = precision v"
  by (cases v)
     (simp_all add: precision_def Vertex_fixPrecision_def EndPointControl_fixPrecision_def Let_def)

lemma precision_clone: "precision (fst (clone v g)) = precision v"
  by (cases v) (simp_all add: precision_def constructor_defs)

lemma subtract_precision [simp]: "precision (fst (subtract this vector g)) = precision vector"
  by (simp add: subtract_def Let_def split_beta)


lemma place_get [simp]:
  "get_x (place v a b) = a" "get_y (place v a b) = b" "precision (place v a b) = precision v"
  by (simp_all add: place_def)

lemma place_place [simp]: "place (place v a b) c d = place v c d"
  by (cases v) (simp_all add: place_def)


lemma place_self [simp]: "place v (get_x v) (get_y v) = v"
  by (cases v) (simp_all add: place_def)

lemma setXY_place: "setXY v other = fixPrecision (place v (get_x other) (get_y other))"
  by (simp add: setXY_def place_def Let_def)

text \<open>The point that \<open>cp.setXY(a.add(cp.subtract(b)))\<close> leaves in \<open>cp\<close> does not depend on
  the identifier generator.\<close>

lemma move_follower_point:
  "fst (move_follower a b cp g) =
     fixPrecision (place cp
       (toFixed (precision b) (toFixed (precision b) (get_x cp - get_x b) + get_x a))
       (toFixed (precision b) (toFixed (precision b) (get_y cp - get_y b) + get_y a)))"
  by (simp add: move_follower_def split_beta setXY_place add_xy subtract_xy)

lemma at_rest_heading:
  assumes "at_rest (AnEndPoint e)"
  shows "normalize_heading 2 (ep_heading e) = ep_heading e"
proof -
  have "get_heading (fixPrecision (AnEndPoint e)) = get_heading (AnEndPoint e)"
    using assms by (simp add: at_rest_def)
  then show ?thesis by (simp add: fixPrecision_heading)
qed

lemma at_rest_place:
  assumes "at_rest v" "toFixed (precision v) a = a" "toFixed (precision v) b = b"
  shows "fixPrecision (place v a b) = place v a b"
proof (cases v)
  case (AnEndPoint e)
  then show ?thesis
    using assms at_rest_heading[of e]
    by (simp add: place_def precision_def Vertex_fixPrecision_def EndPointControl_fixPrecision_def Let_def)
qed (use assms in \<open>simp_all add: place_def precision_def Vertex_fixPrecision_def Let_def\<close>)

lemma grid_place:
  assumes "at_rest v" "p \<le> precision v" "on_grid p a" "on_grid p b"
  shows "fixPrecision (place v a b) = place v a b"
  using assms by (intro at_rest_place) (simp_all add: on_grid_toFixed)

text \<open>One follower, all coordinates on the grid: a translation.\<close>

lemma move_follower_grid:
  assumes "at_rest c" "p \<le> precision c" "grid_point p a" "grid_point p b"
      "on_grid p X" "on_grid p Y"
  shows "fst (move_follower a b (place c X Y) g) =
           place c (X - get_x b + get_x a) (Y - get_y b + get_y a)"
proof -
  have pb: "p \<le> precision b" and gb: "on_grid p (get_x b)" "on_grid p (get_y b)"
    and ga: "on_grid p (get_x a)" "on_grid p (get_y a)"
    using assms(3,4) by (simp_all add: grid_point_def)
  have dx: "on_grid p (X - get_x b)" and dy: "on_grid p (Y - get_y b)"
    using assms(5,6) gb by (simp_all add: on_grid_add)
  have vx: "on_grid p (X - get_x b + get_x a)" and vy: "on_grid p (Y - get_y b + get_y a)"
    using dx dy ga by (simp_all add: on_grid_add)
  show ?thesis
    by (simp add: move_follower_point on_grid_toFixed[OF dx pb] on_grid_toFixed[OF dy pb]
        on_grid_toFixed[OF vx pb] on_grid_toFixed[OF vy pb]
        grid_place[OF assms(1,2) vx vy])
qed


lemma move_followers_Cons:
  "move_followers a b (r # fs) (H, g) =
     move_followers a b fs
       (H(r := fst (move_follower a b (H r) g)), snd (move_follower a b (H r) g))"
  by (simp add: move_followers_def split_beta)

lemma move_followers_Nil [simp]: "move_followers a b [] st = st"
  by (simp add: move_followers_def)

lemma move_followers_indep:
  "fst (move_followers a b fs (H, g)) = fst (move_followers a b fs (H, g'))"
proof (induction fs arbitrary: H g g')
  case Nil
  show ?case by simp
next
  case (Cons r fs)
  have e: "fst (move_follower a b (H r) g) = fst (move_follower a b (H r) g')"
    by (simp only: move_follower_point)
  show ?case
    unfolding move_followers_Cons e by (rule Cons.IH)
qed

lemma on_grid_shift:
  assumes "on_grid p (Fin u)" "on_grid p (Fin v)" "on_grid p (Fin w)"
  shows "on_grid p (Fin (u + real n * (v - w)))"
proof -
  have "(u + real n * (v - w)) * 10 ^ p = u * 10 ^ p + of_nat n * (v * 10 ^ p - w * 10 ^ p)"
    by (simp add: algebra_simps)
  then show ?thesis using assms by (simp add: on_grid_Fin)
qed

text \<open>
  The followers loop on a store in which every follower is a point at rest placed at
  grid coordinates: each follower is translated once for each time it stands in the
  array.
\<close>

lemma move_followers_grid:
  assumes a: "grid_point p a" "grid_point p b"
    and co: "get_x a = Fin ax" "get_y a = Fin ay" "get_x b = Fin bx" "get_y b = Fin bY"
    and H: "\<forall>r \<in> set fs. at_rest (c r) \<and> p \<le> precision (c r)
              \<and> on_grid p (Fin (X r)) \<and> on_grid p (Fin (Y r))
              \<and> H r = place (c r) (Fin (X r)) (Fin (Y r))"
  shows "fst (move_followers a b fs (H, g)) =
     (\<lambda>r. if r \<in> set fs
          then place (c r) (Fin (X r + real (count_list fs r) * (ax - bx)))
                           (Fin (Y r + real (count_list fs r) * (ay - bY)))
          else H r)"
  using H
proof (induction fs arbitrary: H X Y g)
  case Nil
  show ?case by simp
next
  case (Cons r0 fs)
  have r0: "at_rest (c r0)" "p \<le> precision (c r0)" "on_grid p (Fin (X r0))"
      "on_grid p (Fin (Y r0))" "H r0 = place (c r0) (Fin (X r0)) (Fin (Y r0))"
    using Cons.prems by simp_all
  have g: "on_grid p (Fin ax)" "on_grid p (Fin ay)" "on_grid p (Fin bx)" "on_grid p (Fin bY)"
    using a co by (simp_all add: grid_point_def)
  let ?X = "X(r0 := X r0 - bx + ax)" and ?Y = "Y(r0 := Y r0 - bY + ay)"
  let ?cp = "fst (move_follower a b (H r0) g)"
  have cp: "?cp = place (c r0) (Fin (?X r0)) (Fin (?Y r0))"
    unfolding r0(5) move_follower_grid[OF r0(1,2) a r0(3,4)] by (simp add: co)
  have gX: "on_grid p (Fin (?X r0))" "on_grid p (Fin (?Y r0))"
    using on_grid_shift[OF r0(3) g(1) g(3), of 1] on_grid_shift[OF r0(4) g(2) g(4), of 1]
    by (simp_all add: algebra_simps)
  have inv: "\<forall>r \<in> set fs. at_rest (c r) \<and> p \<le> precision (c r)
              \<and> on_grid p (Fin (?X r)) \<and> on_grid p (Fin (?Y r))
              \<and> (H(r0 := ?cp)) r = place (c r) (Fin (?X r)) (Fin (?Y r))"
    using Cons.prems gX cp by auto
  have "fst (move_followers a b (r0 # fs) (H, g))
      = fst (move_followers a b fs (H(r0 := ?cp), snd (move_follower a b (H r0) g)))"
    by (simp only: move_followers_Cons)
  also have "\<dots> = (\<lambda>r. if r \<in> set fs
          then place (c r) (Fin (?X r + real (count_list fs r) * (ax - bx)))
                           (Fin (?Y r + real (count_list fs r) * (ay - bY)))
          else (H(r0 := ?cp)) r)"
    by (rule Cons.IH[OF inv])
  also have "\<dots> = (\<lambda>r. if r \<in> set (r0 # fs)
          then place (c r) (Fin (X r + real (count_list (r0 # fs) r) * (ax - bx)))
                           (Fin (Y r + real (count_list (r0 # fs) r) * (ay - bY)))
          else H r)"
    by (auto simp: fun_eq_iff cp algebra_simps count_list_0_iff)
  finally show ?case .
qed


lemma placedD:
  assumes "placed p c X Y S H" "r \<in> S"
  shows "at_rest (c r)" "p \<le> precision (c r)" "on_grid p (Fin (X r))" "on_grid p (Fin (Y r))"
    "H r = place (c r) (Fin (X r)) (Fin (Y r))"
  using assms unfolding placed_def by blast+

lemma on_grid_the_real: "on_grid p a \<Longrightarrow> a = Fin (the_real a)"
  by (cases a) (simp_all add: on_grid_def the_real_def)

lemma Drag_undo_as_execute: "Drag_undo m frm to fs w = Drag_execute m to frm fs w"
  by (simp add: Drag_undo_def Drag_execute_def)

lemma Drag_execute_other [simp]:
  "props (Drag_execute m frm to fs w) = props w"
  "paths (Drag_execute m frm to fs w) = paths w"
  "cmds (Drag_execute m frm to fs w) = cmds w"
  "segments (Drag_execute m frm to fs w) = segments w"
  "segs (Drag_execute m frm to fs w) = segs w"
  "kfs (Drag_execute m frm to fs w) = kfs w"
  "fresh (Drag_execute m frm to fs w) = fresh w"
  by (simp_all add: Drag_execute_def split_beta)

lemma Drag_execute_ctrls:
  "ctrls (Drag_execute m frm to fs w) =
     (fst (move_followers to frm fs (ctrls w, 0)))
       (m := setXY (fst (move_followers to frm fs (ctrls w, 0)) m) to)"
  using move_followers_indep[of to frm fs "ctrls w" "ids w" 0]
  by (simp add: Drag_execute_def split_beta)

lemma Drag_execute_placed:
  assumes a: "grid_point p to" "grid_point p frm"
    and co: "get_x to = Fin tx" "get_y to = Fin ty" "get_x frm = Fin fx" "get_y frm = Fin fy"
    and H: "placed p c X Y (insert m (set fs)) (ctrls w)"
  shows "placed p c (shifted fs m tx fx X) (shifted fs m ty fy Y) (insert m (set fs))
           (ctrls (Drag_execute m frm to fs w))"
    and "r \<notin> insert m (set fs) \<Longrightarrow> ctrls (Drag_execute m frm to fs w) r = ctrls w r"
proof -
  let ?h = "fst (move_followers to frm fs (ctrls w, 0))"
  have Hfs: "\<forall>r \<in> set fs. at_rest (c r) \<and> p \<le> precision (c r)
              \<and> on_grid p (Fin (X r)) \<and> on_grid p (Fin (Y r))
              \<and> ctrls w r = place (c r) (Fin (X r)) (Fin (Y r))"
    using H unfolding placed_def by blast
  have h: "?h = (\<lambda>r. if r \<in> set fs
          then place (c r) (Fin (X r + real (count_list fs r) * (tx - fx)))
                           (Fin (Y r + real (count_list fs r) * (ty - fy)))
          else ctrls w r)"
    by (rule move_followers_grid[OF a co Hfs])
  have g: "on_grid p (Fin tx)" "on_grid p (Fin ty)" "on_grid p (Fin fx)" "on_grid p (Fin fy)"
    using a co by (simp_all add: grid_point_def)
  have m: "at_rest (c m)" "p \<le> precision (c m)" "ctrls w m = place (c m) (Fin (X m)) (Fin (Y m))"
    using placedD(1,2,5)[OF H, of m] by simp_all
  have "setXY (?h m) to = fixPrecision (place (c m) (Fin tx) (Fin ty))"
    unfolding setXY_place h using m(3) by (simp add: co)
  then have main: "setXY (?h m) to = place (c m) (Fin tx) (Fin ty)"
    using grid_place[OF m(1,2) g(1,2)] by simp
  show "placed p c (shifted fs m tx fx X) (shifted fs m ty fy Y) (insert m (set fs))
           (ctrls (Drag_execute m frm to fs w))"
    unfolding placed_def
  proof (intro ballI)
    fix r assume r: "r \<in> insert m (set fs)"
    then have i: "at_rest (c r)" "p \<le> precision (c r)" "on_grid p (Fin (X r))"
        "on_grid p (Fin (Y r))"
      using H unfolding placed_def by blast+
    have gx: "on_grid p (Fin (shifted fs m tx fx X r))"
      using g(1) on_grid_shift[OF i(3) g(1) g(3)] by (simp add: shifted_def)
    have gy: "on_grid p (Fin (shifted fs m ty fy Y r))"
      using g(2) on_grid_shift[OF i(4) g(2) g(4)] by (simp add: shifted_def)
    have "ctrls (Drag_execute m frm to fs w) r =
            place (c r) (Fin (shifted fs m tx fx X r)) (Fin (shifted fs m ty fy Y r))"
      using r unfolding Drag_execute_ctrls main by (auto simp: h shifted_def)
    then show "at_rest (c r) \<and> p \<le> precision (c r)
              \<and> on_grid p (Fin (shifted fs m tx fx X r)) \<and> on_grid p (Fin (shifted fs m ty fy Y r))
              \<and> ctrls (Drag_execute m frm to fs w) r =
                  place (c r) (Fin (shifted fs m tx fx X r)) (Fin (shifted fs m ty fy Y r))"
      using i gx gy by simp
  qed
  show "ctrls (Drag_execute m frm to fs w) r = ctrls w r" if "r \<notin> insert m (set fs)"
    using that unfolding Drag_execute_ctrls by (simp add: h)
qed

text \<open>Controls at rest on the grid are placed at their own coordinates.\<close>

lemma placed_self:
  assumes "\<forall>r \<in> S. at_rest (H r) \<and> grid_point p (H r)"
  shows "placed p H (\<lambda>r. the_real (get_x (H r))) (\<lambda>r. the_real (get_y (H r))) S H"
  unfolding placed_def
proof (intro ballI)
  fix r assume "r \<in> S"
  then have i: "at_rest (H r)" "p \<le> precision (H r)" "on_grid p (get_x (H r))"
      "on_grid p (get_y (H r))"
    using assms by (simp_all add: grid_point_def)
  have e: "Fin (the_real (get_x (H r))) = get_x (H r)" "Fin (the_real (get_y (H r))) = get_y (H r)"
    using on_grid_the_real[OF i(3)] on_grid_the_real[OF i(4)] by simp_all
  show "at_rest (H r) \<and> p \<le> precision (H r)
        \<and> on_grid p (Fin (the_real (get_x (H r)))) \<and> on_grid p (Fin (the_real (get_y (H r))))
        \<and> H r = place (H r) (Fin (the_real (get_x (H r)))) (Fin (the_real (get_y (H r))))"
    using i by (simp add: e)
qed

lemma Drag_round_trip:
  assumes gp: "grid_point p frm" "grid_point p to"
    and inv: "\<forall>r \<in> insert m (set fs). at_rest (ctrls w r) \<and> grid_point p (ctrls w r)"
    and mm: "get_x (ctrls w m) = get_x frm" "get_y (ctrls w m) = get_y frm"
  shows "ctrls (Drag_undo m frm to fs (Drag_execute m frm to fs w)) = ctrls w"
proof -
  let ?X = "\<lambda>r. the_real (get_x (ctrls w r))" and ?Y = "\<lambda>r. the_real (get_y (ctrls w r))"
  let ?S = "insert m (set fs)"
  let ?w1 = "Drag_execute m frm to fs w"
  let ?w2 = "Drag_execute m to frm fs ?w1"
  define tx ty fx fy where "tx = the_real (get_x to)" and "ty = the_real (get_y to)"
    and "fx = the_real (get_x frm)" and "fy = the_real (get_y frm)"
  have co: "get_x to = Fin tx" "get_y to = Fin ty" "get_x frm = Fin fx" "get_y frm = Fin fy"
    using gp unfolding grid_point_def tx_def ty_def fx_def fy_def
    by (blast intro: on_grid_the_real)+
  have p0: "placed p (ctrls w) ?X ?Y ?S (ctrls w)" by (rule placed_self[OF inv])
  note p1 = Drag_execute_placed[OF gp(2,1) co p0]
  note p2 = Drag_execute_placed[OF gp(1,2) co(3,4,1,2) p1(1)]
  have "ctrls ?w2 r = ctrls w r" for r
  proof (cases "r \<in> ?S")
    case True
    then have o: "ctrls w r = place (ctrls w r) (Fin (?X r)) (Fin (?Y r))"
      using p0 by (rule placedD(5)[rotated])
    have "ctrls ?w2 r = place (ctrls w r)
            (Fin (shifted fs m fx tx (shifted fs m tx fx ?X) r))
            (Fin (shifted fs m fy ty (shifted fs m ty fy ?Y) r))"
      using p2(1) True by (rule placedD(5))
    moreover have "shifted fs m fx tx (shifted fs m tx fx ?X) r = ?X r"
      using mm(1) co by (simp add: shifted_def the_real_def algebra_simps)
    moreover have "shifted fs m fy ty (shifted fs m ty fy ?Y) r = ?Y r"
      using mm(2) co by (simp add: shifted_def the_real_def algebra_simps)
    ultimately show ?thesis using o by simp
  next
    case False
    then show ?thesis using p1(2)[of r] p2(2)[of r] by simp
  qed
  then show ?thesis by (simp add: Drag_undo_as_execute fun_eq_iff)
qed

subsection \<open>\<open>UpdateInstancesProperties\<close>\<close>

text \<open>With no target named twice, \<open>execute\<close> writes each target once.\<close>

lemma UIP_execute_fold:
  assumes "distinct ts"
  shows "fold (\<lambda>t (prev, h).
             (let (p, obj) = updatePropertiesForTarget (h t) vals
              in (prev @ [p], h(t := obj))))
          ts (acc, heap)
       = (acc @ map (\<lambda>t. fst (updatePropertiesForTarget (heap t) vals)) ts,
          (\<lambda>r. if r \<in> set ts then heap r ++ vals else heap r))"
  using assms
proof (induction ts arbitrary: acc heap)
  case Nil
  then show ?case by simp
next
  case (Cons t ts)
  let ?f = "\<lambda>t (prev, h).
             (let (p, obj) = updatePropertiesForTarget (h t) vals
              in (prev @ [p], h(t := obj)))"
  from Cons.prems have d: "distinct ts" "t \<notin> set ts" by simp_all
  have m: "map (\<lambda>u. fst (updatePropertiesForTarget ((heap(t := heap t ++ vals)) u) vals)) ts
         = map (\<lambda>u. fst (updatePropertiesForTarget (heap u) vals)) ts"
    using d(2) by (auto simp: map_eq_conv)
  have step: "?f t (acc, heap)
      = (acc @ [fst (updatePropertiesForTarget (heap t) vals)], heap(t := heap t ++ vals))"
    by (simp add: updatePropertiesForTarget_def)
  have "fold ?f (t # ts) (acc, heap) = fold ?f ts (?f t (acc, heap))"
    by (simp only: fold_simps o_apply)
  also have "\<dots> = fold ?f ts
      (acc @ [fst (updatePropertiesForTarget (heap t) vals)], heap(t := heap t ++ vals))"
    by (simp only: step)
  also have "\<dots> = ((acc @ [fst (updatePropertiesForTarget (heap t) vals)])
        @ map (\<lambda>u. fst (updatePropertiesForTarget ((heap(t := heap t ++ vals)) u) vals)) ts,
      (\<lambda>r. if r \<in> set ts then (heap(t := heap t ++ vals)) r ++ vals
            else (heap(t := heap t ++ vals)) r))"
    by (rule Cons.IH[OF d(1)])
  also have "\<dots> = (acc @ map (\<lambda>t. fst (updatePropertiesForTarget (heap t) vals)) (t # ts),
          (\<lambda>r. if r \<in> set (t # ts) then heap r ++ vals else heap r))"
    using d(2) by (auto simp: m fun_eq_iff)
  finally show ?case .
qed

lemma UIP_execute_distinct:
  assumes "distinct ts"
  shows "UIP_execute ts vals heap =
           (map (\<lambda>t. fst (updatePropertiesForTarget (heap t) vals)) ts,
            (\<lambda>r. if r \<in> set ts then heap r ++ vals else heap r))"
  unfolding UIP_execute_def using UIP_execute_fold[OF assms, of vals "[]" heap] by simp

lemma UIP_undo_fold:
  assumes "distinct ts" "n \<le> length ts" "length prev = length ts"
  shows "fold (\<lambda>i h. h((ts ! i) := snd (updatePropertiesForTarget (h (ts ! i))
                                      (if i < length prev then prev ! i else Map.empty))))
          [0 ..< n] heap
       = (\<lambda>r. if r \<in> set (take n ts) then heap r ++ (prev ! (THE i. i < n \<and> ts ! i = r)) else heap r)"
  using assms(2)
proof (induction n)
  case 0
  then show ?case by simp
next
  case (Suc n)
  let ?g = "\<lambda>i h. h((ts ! i) := snd (updatePropertiesForTarget (h (ts ! i))
                                      (if i < length prev then prev ! i else Map.empty)))"
  let ?h = "\<lambda>r. if r \<in> set (take n ts) then heap r ++ (prev ! (THE i. i < n \<and> ts ! i = r)) else heap r"
  from Suc.prems have n: "n < length ts" "n \<le> length ts" by simp_all
  have notin: "ts ! n \<notin> set (take n ts)"
    using assms(1) n by (auto simp: in_set_conv_nth nth_eq_iff_index_eq)
  have the_n: "(THE i. i < Suc n \<and> ts ! i = ts ! n) = n"
    using assms(1) n by (auto simp: nth_eq_iff_index_eq intro!: the_equality)
  have the_old: "(THE i. i < Suc n \<and> ts ! i = r) = (THE i. i < n \<and> ts ! i = r)"
    if "r \<in> set (take n ts)" for r
  proof -
    from that obtain j where j: "j < n" "ts ! j = r" using n by (auto simp: in_set_conv_nth)
    have "(THE i. i < Suc n \<and> ts ! i = r) = j"
      using assms(1) n j by (auto simp: nth_eq_iff_index_eq intro!: the_equality)
    moreover have "(THE i. i < n \<and> ts ! i = r) = j"
      using assms(1) n j by (auto simp: nth_eq_iff_index_eq intro!: the_equality)
    ultimately show ?thesis by simp
  qed
  have tk: "set (take (Suc n) ts) = insert (ts ! n) (set (take n ts))"
    using n by (simp add: take_Suc_conv_app_nth)
  have "fold ?g [0 ..< Suc n] heap = ?g n (fold ?g [0 ..< n] heap)"
    by (simp only: upt_Suc_append[OF le0] fold_append fold_simps o_apply id_apply)
  also have "\<dots> = ?g n ?h" by (simp only: Suc.IH[OF n(2)])
  also have "\<dots> = ?h((ts ! n) := ?h (ts ! n) ++ (prev ! n))"
    using n assms(3) by (simp add: updatePropertiesForTarget_def)
  also have "\<dots> = (\<lambda>r. if r \<in> set (take (Suc n) ts)
         then heap r ++ (prev ! (THE i. i < Suc n \<and> ts ! i = r)) else heap r)"
    using notin by (auto simp: tk the_n the_old fun_eq_iff)
  finally show ?case .
qed

lemma UIP_undo_distinct:
  assumes "distinct ts" "length prev = length ts" "i < length ts"
  shows "UIP_undo ts prev heap (ts ! i) = heap (ts ! i) ++ (prev ! i)"
proof -
  have "(THE j. j < length ts \<and> ts ! j = ts ! i) = i"
    using assms by (auto simp: nth_eq_iff_index_eq intro!: the_equality)
  then show ?thesis
    unfolding UIP_undo_def using UIP_undo_fold[OF assms(1) le_refl assms(2), of heap] assms(3)
    by simp
qed

lemma UIP_undo_other:
  assumes "distinct ts" "length prev = length ts" "r \<notin> set ts"
  shows "UIP_undo ts prev heap r = heap r"
  unfolding UIP_undo_def using UIP_undo_fold[OF assms(1) le_refl assms(2), of heap] assms(3)
  by simp

lemma restore_read:
  "get_prop ((obj ++ vals) ++ fst (updatePropertiesForTarget obj vals)) key = get_prop obj key"
  by (simp add: updatePropertiesForTarget_def get_prop_def map_add_def split: option.splits)

lemma UIP_round_trip_reads:
  assumes "distinct ts"
  shows "reads (UIP_undo ts (fst (UIP_execute ts vals heap)) (snd (UIP_execute ts vals heap))) = reads heap"
proof (intro ext)
  fix r key
  show "reads (UIP_undo ts (fst (UIP_execute ts vals heap)) (snd (UIP_execute ts vals heap))) r key
        = reads heap r key"
  proof (cases "r \<in> set ts")
    case True
    then obtain i where i: "i < length ts" "ts ! i = r" by (auto simp: in_set_conv_nth)
    show ?thesis
      using UIP_undo_distinct[OF assms _ i(1), of "fst (UIP_execute ts vals heap)" "snd (UIP_execute ts vals heap)"] i True
      by (simp add: UIP_execute_distinct[OF assms] reads_def restore_read)
  next
    case False
    then show ?thesis
      using UIP_undo_other[OF assms _ False, of "fst (UIP_execute ts vals heap)" "snd (UIP_execute ts vals heap)"]
      by (simp add: UIP_execute_distinct[OF assms] reads_def)
  qed
qed

text \<open>Executing again on a heap that reads the same writes the same previous values and,
  where the first execution had written, the same objects.\<close>

lemma prev_reads:
  assumes "reads h' = reads h"
  shows "fst (updatePropertiesForTarget (h' t) vals) = fst (updatePropertiesForTarget (h t) vals)"
proof -
  have "get_prop (h' t) key = get_prop (h t) key" for key
    using assms by (simp add: reads_def fun_eq_iff)
  then show ?thesis by (simp add: updatePropertiesForTarget_def fun_eq_iff split: option.splits)
qed


lemma redo_object:
  "((obj ++ vals) ++ fst (updatePropertiesForTarget obj vals)) ++ vals = obj ++ vals"
  by (auto simp: updatePropertiesForTarget_def map_add_def fun_eq_iff split: option.splits)

lemma UIP_redo_heap:
  assumes "distinct ts"
  shows "UIP_execute ts vals (UIP_undo ts (fst (UIP_execute ts vals heap)) (snd (UIP_execute ts vals heap)))
         = UIP_execute ts vals heap"
proof -
  let ?h1 = "snd (UIP_execute ts vals heap)" and ?pv = "fst (UIP_execute ts vals heap)"
  let ?h2 = "UIP_undo ts ?pv ?h1"
  have len: "length ?pv = length ts" by (simp add: UIP_execute_distinct[OF assms])
  have rd: "reads ?h2 = reads heap" by (rule UIP_round_trip_reads[OF assms])
  have pv: "map (\<lambda>t. fst (updatePropertiesForTarget (?h2 t) vals)) ts
          = map (\<lambda>t. fst (updatePropertiesForTarget (heap t) vals)) ts"
    using prev_reads[OF rd] by simp
  have hp: "(if r \<in> set ts then ?h2 r ++ vals else ?h2 r)
          = (if r \<in> set ts then heap r ++ vals else heap r)" for r
  proof (cases "r \<in> set ts")
    case True
    then obtain i where i: "i < length ts" "ts ! i = r" by (auto simp: in_set_conv_nth)
    have "?h2 r = ?h1 r ++ (?pv ! i)"
      using UIP_undo_distinct[OF assms len i(1), of ?h1] i(2) by simp
    then show ?thesis using True i
      by (simp add: UIP_execute_distinct[OF assms] redo_object)
  next
    case False
    then show ?thesis
      using UIP_undo_other[OF assms len False, of ?h1]
      by (simp add: UIP_execute_distinct[OF assms])
  qed
  have hp': "(\<lambda>r. if r \<in> set ts then ?h2 r ++ vals else ?h2 r)
          = (\<lambda>r. if r \<in> set ts then heap r ++ vals else heap r)"
    by (rule ext) (rule hp)
  have "UIP_execute ts vals ?h2
      = (map (\<lambda>t. fst (updatePropertiesForTarget (?h2 t) vals)) ts,
         (\<lambda>r. if r \<in> set ts then ?h2 r ++ vals else ?h2 r))"
    by (rule UIP_execute_distinct[OF assms])
  also have "\<dots> = (map (\<lambda>t. fst (updatePropertiesForTarget (heap t) vals)) ts,
         (\<lambda>r. if r \<in> set ts then heap r ++ vals else heap r))"
    by (simp only: pv hp')
  also have "\<dots> = UIP_execute ts vals heap"
    by (rule UIP_execute_distinct[OF assms, symmetric])
  finally show ?thesis .
qed

subsection \<open>\<open>AddPath\<close> and \<open>RemovePath\<close>\<close>

lemma indexOf_notin: "a \<notin> set xs \<Longrightarrow> indexOf xs a = - 1"
  by (induction xs) (auto simp: Let_def)

lemma indexOf_in:
  assumes "a \<in> set xs"
  shows "0 \<le> indexOf xs a \<and> nat (indexOf xs a) < length xs \<and> xs ! nat (indexOf xs a) = a"
  using assms
proof (induction xs)
  case Nil
  then show ?case by simp
next
  case (Cons b xs)
  show ?case
  proof (cases "b = a")
    case True
    then show ?thesis by simp
  next
    case False
    then have "a \<in> set xs" using Cons.prems by simp
    from Cons.IH[OF this] False show ?thesis
      by (simp add: Let_def nat_add_distrib)
  qed
qed

lemma indexOf_append_new:
  "a \<notin> set xs \<Longrightarrow> indexOf (xs @ [a]) a = int (length xs)"
  by (induction xs) (auto simp: Let_def)

lemma splice_pushed: "js_splice (xs @ [a]) (int (length xs)) 1 [] = xs"
  by (simp add: js_splice_def Let_def)

lemma splice_remove:
  assumes "0 \<le> i" "nat i < length xs"
  shows "js_splice xs i 1 [] = take (nat i) xs @ drop (Suc (nat i)) xs"
proof -
  have "min i (int (length xs)) = i" using assms by linarith
  then show ?thesis using assms by (simp add: js_splice_def Let_def)
qed

lemma splice_back:
  assumes "0 \<le> i" "nat i < length xs"
  shows "js_splice (js_splice xs i 1 []) i 0 [xs ! nat i] = xs"
proof -
  let ?ys = "take (nat i) xs @ drop (Suc (nat i)) xs"
  have "min i (int (length ?ys)) = i" using assms by (simp add: min_def)
  then have "js_splice ?ys i 0 [xs ! nat i]
      = take (nat i) xs @ [xs ! nat i] @ drop (Suc (nat i)) xs"
    using assms by (simp add: js_splice_def Let_def)
  also have "\<dots> = xs" using assms(2) by (simp add: id_take_nth_drop[symmetric])
  finally show ?thesis by (simp only: splice_remove[OF assms])
qed


lemma indexOf_first: "a \<notin> set ys \<Longrightarrow> indexOf (ys @ a # zs) a = int (length ys)"
  by (induction ys) (auto simp: Let_def)

lemma indexOf_neg_iff: "indexOf xs a = - 1 \<longleftrightarrow> a \<notin> set xs"
  using indexOf_in[of a xs] indexOf_notin[of a xs] by auto

lemma splice_insert:
  assumes "0 \<le> j" "nat j \<le> length xs"
  shows "js_splice xs j 0 [a] = take (nat j) xs @ a # drop (nat j) xs"
proof -
  have "min j (int (length xs)) = j" using assms by linarith
  then show ?thesis using assms by (simp add: js_splice_def Let_def)
qed

lemma splice_insert_remove:
  assumes "a \<notin> set xs" "0 \<le> j" "nat j \<le> length xs"
  shows "js_splice (js_splice xs j 0 [a]) (indexOf (js_splice xs j 0 [a]) a) 1 [] = xs"
proof -
  let ?ys = "take (nat j) xs" and ?zs = "drop (nat j) xs"
  have n: "a \<notin> set ?ys" using assms(1) by (meson in_set_takeD)
  have i: "indexOf (?ys @ a # ?zs) a = int (length ?ys)" by (rule indexOf_first[OF n])
  have "js_splice (?ys @ a # ?zs) (int (length ?ys)) 1 [] = ?ys @ ?zs"
    using assms(3) by (simp add: js_splice_def Let_def min_def)
  then show ?thesis by (simp only: splice_insert[OF assms(2,3)] i) simp
qed

subsection \<open>Objects that are created\<close>

text \<open>The fields of a world after \<open>new\<close> and after the assignment of an array.\<close>

lemma store_control_fields [simp]:
  "fst (store_control v w) = fresh w"
  "ctrls (snd (store_control v w)) = (ctrls w)(fresh w := v)"
  "fresh (snd (store_control v w)) = Suc (fresh w)"
  "segs (snd (store_control v w)) = segs w"
  "kfs (snd (store_control v w)) = kfs w"
  "segments (snd (store_control v w)) = segments w"
  "props (snd (store_control v w)) = props w"
  "paths (snd (store_control v w)) = paths w"
  "ids (snd (store_control v w)) = ids w"
  by (simp_all add: store_control_def)

lemma new_Segment_fields [simp]:
  "fst (new_Segment a m b w) = fresh w"
  "ctrls (snd (new_Segment a m b w)) = ctrls w"
  "fresh (snd (new_Segment a m b w)) = Suc (fresh w)"
  "kfs (snd (new_Segment a m b w)) = kfs w"
  "segments (snd (new_Segment a m b w)) = segments w"
  "props (snd (new_Segment a m b w)) = props w"
  "paths (snd (new_Segment a m b w)) = paths w"
  "r \<noteq> fresh w \<Longrightarrow> segs (snd (new_Segment a m b w)) r = segs w r"
  by (simp_all add: new_Segment_def split_beta Let_def)

lemma new_Keyframe_fields [simp]:
  "fst (new_Keyframe a b w) = fresh w"
  "ctrls (snd (new_Keyframe a b w)) = ctrls w"
  "fresh (snd (new_Keyframe a b w)) = Suc (fresh w)"
  "kfs (snd (new_Keyframe a b w)) = (kfs w)(fresh w := \<lparr>xPos = a, yPos = b\<rparr>)"
  "segs (snd (new_Keyframe a b w)) = segs w"
  "segments (snd (new_Keyframe a b w)) = segments w"
  "props (snd (new_Keyframe a b w)) = props w"
  "paths (snd (new_Keyframe a b w)) = paths w"
  by (simp_all add: new_Keyframe_def)

lemma set_segments_fields [simp]:
  "segments (set_segments q ss w) = (segments w)(q := ss)"
  "ctrls (set_segments q ss w) = ctrls w"
  "fresh (set_segments q ss w) = fresh w"
  "segs (set_segments q ss w) = segs w"
  "kfs (set_segments q ss w) = kfs w"
  "props (set_segments q ss w) = props w"
  "paths (set_segments q ss w) = paths w"
  by (simp_all add: set_segments_def)

lemma set_controls_fields [simp]:
  "segs (set_controls s cs w) = (segs w)(s := (segs w s)\<lparr>seg_controls := cs\<rparr>)"
  "ctrls (set_controls s cs w) = ctrls w"
  "fresh (set_controls s cs w) = fresh w"
  "segments (set_controls s cs w) = segments w"
  "kfs (set_controls s cs w) = kfs w"
  "props (set_controls s cs w) = props w"
  "paths (set_controls s cs w) = paths w"
  by (simp_all add: set_controls_def)

lemma set_profiles_fields [simp]:
  "segs (set_profiles s ps w) = (segs w)(s := (segs w s)\<lparr>speedProfiles := ps\<rparr>)"
  "ctrls (set_profiles s ps w) = ctrls w"
  "fresh (set_profiles s ps w) = fresh w"
  "segments (set_profiles s ps w) = segments w"
  "kfs (set_profiles s ps w) = kfs w"
  "props (set_profiles s ps w) = props w"
  "paths (set_profiles s ps w) = paths w"
  by (simp_all add: set_profiles_def)

lemma untouched_refl [simp]: "untouched w w"
  by (simp add: untouched_def)

subsection \<open>\<open>AddSegment\<close>\<close>

text \<open>A segment of 2 or 4 controls has a first and a last control, and a control at each
  index.\<close>

lemma typed_last:
  assumes "typed_segment w r"
  obtains l a where "r = Some l" "seg_last (segs w l) = Some a"
proof -
  from assms obtain l where l: "r = Some l" by (cases r) simp_all
  with assms have n: "seg_controls (segs w l) \<noteq> []" "None \<notin> set (seg_controls (segs w l))"
    by auto
  then have "last (seg_controls (segs w l)) \<noteq> None" by (metis last_in_set)
  with n l that show ?thesis by (auto simp: seg_last_def)
qed

lemma typed_first:
  assumes "typed_segment w (Some l)"
  obtains a where "seg_first (segs w l) = Some a"
proof -
  from assms obtain c cs where c: "seg_controls (segs w l) = c # cs"
    by (cases "seg_controls (segs w l)") auto
  with assms have "None \<noteq> c" by auto
  then obtain a where "c = Some a" by (cases c) simp_all
  with c that show ?thesis by (simp add: seg_first_def)
qed

lemma typed_at:
  assumes "typed_segment w (Some l)" "0 \<le> i" "i < int (length (seg_controls (segs w l)))"
  obtains a where "at_index (seg_controls (segs w l)) i = Some a"
proof -
  have "seg_controls (segs w l) ! nat i \<in> set (seg_controls (segs w l))"
    using assms(2,3) by simp
  with assms(1) have "seg_controls (segs w l) ! nat i \<noteq> None" by (metis typed_segment.simps(2))
  then obtain a where "seg_controls (segs w l) ! nat i = Some a" by blast
  with assms(2,3) that show ?thesis by (simp add: at_index_def)
qed

text \<open>\<open>addLine\<close> and \<open>addCurve\<close> return, push the new segment on the path, and change no
  object that was there.\<close>

lemma addLine_result:
  assumes "segments w q = [] \<or> typed_segment w (last (segments w q))"
  shows "\<exists>s w1. AddSegment_addLine q e w = Inr (s, w1)
           \<and> segments w1 = (segments w)(q := segments w q @ [Some s])
           \<and> props w1 = props w \<and> paths w1 = paths w \<and> kfs w1 = kfs w \<and> untouched w w1"
proof (cases "segments w q = []")
  case True
  then show ?thesis
    by (simp add: AddSegment_addLine_def split_beta Let_def untouched_def)
next
  case False
  with assms have "typed_segment w (last (segments w q))" by simp
  then obtain l a where "last (segments w q) = Some l" by (rule typed_last)
  with False show ?thesis
    by (simp add: AddSegment_addLine_def split_beta Let_def untouched_def)
qed

lemma addCurve_result:
  assumes "segments w q = [] \<or> typed_segment w (last (segments w q))"
  shows "\<exists>s w1. AddSegment_addCurve q e w = Inr (s, w1)
           \<and> segments w1 = (segments w)(q := segments w q @ [Some s])
           \<and> props w1 = props w \<and> paths w1 = paths w \<and> kfs w1 = kfs w \<and> untouched w w1"
proof (cases "segments w q = []")
  case True
  then show ?thesis
    by (simp add: AddSegment_addCurve_def split_beta Let_def untouched_def)
next
  case False
  with assms have t: "typed_segment w (last (segments w q))" by simp
  then obtain l a where l: "last (segments w q) = Some l" "seg_last (segs w l) = Some a"
    by (rule typed_last)
  let ?cs = "seg_controls (segs w l)"
  from t l have len: "length ?cs = 2 \<or> length ?cs = 4" and tl: "typed_segment w (Some l)"
    by simp_all
  obtain c where c: "(if length ?cs < 4 then at_index ?cs 0 else at_index ?cs 2) = Some c"
  proof (cases "length ?cs < 4")
    case True
    with len typed_at[OF tl, of 0] that show ?thesis by auto
  next
    case False
    with len typed_at[OF tl, of 2] that show ?thesis by auto
  qed
  from False l c show ?thesis
    by (simp add: AddSegment_addCurve_def split_beta Let_def untouched_def)
qed

lemma round_trip_AddSegment:
  assumes "round_trip_ready p (AddSegment q e v fw sg) w"
  shows "\<exists>c1 w1 c2 w2 w3.
           command_execute (AddSegment q e v fw sg) w = Inr (c1, w1)
         \<and> command_undo c1 w1 = Inr (c2, w2) \<and> restored w2 w
         \<and> command_redo c2 w2 = Inr (c1, w3) \<and> same_world w3 w1"
proof -
  from assms have r: "segments w q = [] \<or> typed_segment w (last (segments w q))" by simp
  obtain s w1 where e: "(case v of LINEAR \<Rightarrow> AddSegment_addLine q e w
                                  | CURVE \<Rightarrow> AddSegment_addCurve q e w) = Inr (s, w1)"
    and f: "segments w1 = (segments w)(q := segments w q @ [Some s])"
      "props w1 = props w" "paths w1 = paths w" "kfs w1 = kfs w" "untouched w w1"
    using addLine_result[OF r, of e] addCurve_result[OF r, of e] by (cases v) auto
  let ?w2 = "set_segments q (butlast (segments w1 q)) w1"
  let ?w3 = "set_segments q (segments ?w2 q @ [Some s]) ?w2"
  have x: "command_execute (AddSegment q e v fw sg) w = Inr (AddSegment q e v True (Some s), w1)"
    by (simp add: e)
  have u: "command_undo (AddSegment q e v True (Some s)) w1
         = Inr (AddSegment q e v False (Some s), ?w2)" by simp
  have d: "command_redo (AddSegment q e v False (Some s)) ?w2
         = Inr (AddSegment q e v True (Some s), ?w3)" by simp
  have s2: "restored ?w2 w" using f by (simp add: restored_def untouched_def)
  have s3: "same_world ?w3 w1" using f by (simp add: same_world_def same_state_def)
  from x u d s2 s3 show ?thesis by blast
qed

subsection \<open>\<open>ConvertSegment\<close>\<close>

lemma at_index_in: "0 \<le> i \<Longrightarrow> i < int (length xs) \<Longrightarrow> at_index xs i \<in> set xs"
  by (simp add: at_index_def)

lemma mirrored_control_typed:
  assumes "typed_segment w r" "f = (\<lambda>n. int n - 2) \<or> f = (\<lambda>n. 1)"
  shows "\<exists>v g'. mirrored_control w c r f g = Inr (v, g')"
proof -
  from assms(1) obtain n where n: "r = Some n" by (cases r) simp_all
  let ?cs = "seg_controls (segs w n)"
  from assms(1) n have len: "length ?cs = 2 \<or> length ?cs = 4" and t: "typed_segment w (Some n)"
    by simp_all
  from len assms(2) have "0 \<le> f (length ?cs) \<and> f (length ?cs) < int (length ?cs)" by auto
  with typed_at[OF t] obtain a where "at_index ?cs (f (length ?cs)) = Some a" by blast
  with n show ?thesis by (cases "mirror c (ctrls w a) g") (simp add: mirrored_control_def)
qed

lemma convertToCurve_result:
  assumes "\<forall>r \<in> set (segments w q). typed_segment w r"
  shows "\<exists>w1. ConvertSegment_convertToCurve q s w = Inr w1
           \<and> segments w1 = segments w \<and> props w1 = props w \<and> paths w1 = paths w
           \<and> kfs w1 = kfs w \<and> untouched w (set_controls s (seg_controls (segs w s)) w1)
           \<and> segs w1 = (segs w)(s := (segs w s)\<lparr>seg_controls := seg_controls (segs w1 s)\<rparr>)"
proof (cases "indexOf (segments w q) (Some s) = - 1")
  case True
  then show ?thesis by (simp add: ConvertSegment_convertToCurve_def untouched_def)
next
  case False
  let ?ss = "segments w q" and ?i = "indexOf (segments w q) (Some s)"
  from False have m: "Some s \<in> set ?ss" by (simp add: indexOf_neg_iff)
  from indexOf_in[OF m] have i: "0 \<le> ?i" "?i < int (length ?ss)" by auto
  from m assms have t: "typed_segment w (Some s)" by blast
  obtain p0 where p0: "seg_first (segs w s) = Some p0" using t by (rule typed_first)
  obtain s' p3 where "Some s = Some s'" "seg_last (segs w s') = Some p3" using t by (rule typed_last)
  then have p3: "seg_last (segs w s) = Some p3" by simp
  obtain v1 g1 where
    v1: "(if 0 < ?i
          then (case mirrored_control w (ctrls w p0) (at_index ?ss (?i - 1))
                       (\<lambda>n. int n - 2) (ids w) of
                  Inl err \<Rightarrow> Inl err
                | Inr (m, g) \<Rightarrow> (let (c, g') = new_Control (get_x m) (get_y m) g
                                 in Inr (AControl c, g')))
          else Inr (midpoint (ctrls w p0) (ctrls w p3) (ids w))) = Inr (v1, g1)"
  proof (cases "0 < ?i")
    case True
    with i have "at_index ?ss (?i - 1) \<in> set ?ss" by (intro at_index_in) simp_all
    with assms have "typed_segment w (at_index ?ss (?i - 1))" by blast
    from mirrored_control_typed[OF this, of "\<lambda>n. int n - 2" "ctrls w p0" "ids w"]
    obtain m g where "mirrored_control w (ctrls w p0) (at_index ?ss (?i - 1))
                        (\<lambda>n. int n - 2) (ids w) = Inr (m, g)" by auto
    with True that show ?thesis by (simp add: split_beta)
  next
    case False
    with that show ?thesis by (cases "midpoint (ctrls w p0) (ctrls w p3) (ids w)") simp
  qed
  obtain v2 g2 where
    v2: "(if ?i + 1 < int (length ?ss)
          then mirrored_control w (ctrls w p3) (at_index ?ss (?i + 1)) (\<lambda>n. 1) g1
          else Inr (midpoint (ctrls w p0) (ctrls w p3) g1)) = Inr (v2, g2)"
  proof (cases "?i + 1 < int (length ?ss)")
    case True
    with i have "at_index ?ss (?i + 1) \<in> set ?ss" by (intro at_index_in) simp_all
    with assms have "typed_segment w (at_index ?ss (?i + 1))" by blast
    from mirrored_control_typed[OF this, of "\<lambda>n. 1" "ctrls w p3" g1] True that
    show ?thesis by auto
  next
    case False
    with that show ?thesis by (cases "midpoint (ctrls w p0) (ctrls w p3) g1") simp
  qed
  show ?thesis
    using False
    by (simp add: ConvertSegment_convertToCurve_def Let_def p0 p3 v1 v2 split_beta
        untouched_def fun_eq_iff)
qed

lemma round_trip_ConvertSegment:
  assumes "round_trip_ready p (ConvertSegment q s v pc nc) w"
  shows "\<exists>c1 w1 c2 w2 w3.
           command_execute (ConvertSegment q s v pc nc) w = Inr (c1, w1)
         \<and> command_undo c1 w1 = Inr (c2, w2) \<and> restored w2 w
         \<and> command_redo c2 w2 = Inr (c1, w3) \<and> same_world w3 w1"
proof -
  let ?pc = "seg_controls (segs w s)"
  obtain w1 where e: "(case v of LINEAR \<Rightarrow> Inr (ConvertSegment_convertToLine s w)
                                | CURVE \<Rightarrow> ConvertSegment_convertToCurve q s w) = Inr w1"
    and f: "segments w1 = segments w" "props w1 = props w" "paths w1 = paths w"
      "kfs w1 = kfs w" "untouched w (set_controls s ?pc w1)"
      "segs w1 = (segs w)(s := (segs w s)\<lparr>seg_controls := seg_controls (segs w1 s)\<rparr>)"
  proof (cases v)
    case LINEAR
    with that[of "ConvertSegment_convertToLine s w"] show ?thesis
      by (simp add: ConvertSegment_convertToLine_def Let_def untouched_def)
  next
    case CURVE
    with assms have "\<forall>r \<in> set (segments w q). typed_segment w r" by simp
    from convertToCurve_result[OF this, of s] CURVE that show ?thesis by auto
  qed
  let ?c = "ConvertSegment q s v ?pc (seg_controls (segs w1 s))"
  let ?w2 = "set_controls s ?pc w1"
  let ?w3 = "set_controls s (seg_controls (segs w1 s)) ?w2"
  have x: "command_execute (ConvertSegment q s v pc nc) w = Inr (?c, w1)"
    by (simp add: ConvertSegment_execute_def Let_def e)
  have u: "command_undo ?c w1 = Inr (?c, ?w2)" by simp
  have d: "command_redo ?c ?w2 = Inr (?c, ?w3)" by simp
  have s2: "restored ?w2 w" using f(1-5) by (simp add: restored_def)
  have "segs ?w3 = segs w1" by (simp add: fun_eq_iff)
  then have s3: "same_world ?w3 w1" by (simp add: same_world_def same_state_def)
  from x u d s2 s3 show ?thesis by blast
qed


subsection \<open>\<open>SplitSegment\<close>\<close>

text \<open>
  \<open>execute\<close> returns, inserts a new segment after the one that is split, and changes the
  controls of this one alone. \<open>undo\<close> assigns the array \<open>previousOriginalSegmentControls\<close>
  itself, not a copy of it; no step of the round trip writes into that array.
\<close>

lemma seg_set_last_controls:
  "seg_set_last sg r = sg\<lparr>seg_controls := seg_controls (seg_set_last sg r)\<rparr>"
  by (simp add: seg_set_last_def)

lemma split_result:
  assumes m: "Some s \<in> set (segments w q)" and t: "typed_segment w (Some s)"
    and a: "s < fresh w"
  shows "\<exists>n nc w1.
           SplitSegment_execute q s pt fw nc0 ns0 w
             = Inr (SplitSegment q s pt True (seg_controls (segs w s)) nc (Some n), w1)
         \<and> fresh w \<le> n \<and> n < fresh w1
         \<and> segments w1 = (segments w)(q := js_splice (segments w q)
                                               (indexOf (segments w q) (Some s) + 1) 0 [Some n])
         \<and> (\<forall>r. r \<noteq> n \<longrightarrow> segs w1 r = (if r = s then (segs w s)\<lparr>seg_controls := nc\<rparr> else segs w r))
         \<and> props w1 = props w \<and> paths w1 = paths w \<and> kfs w1 = kfs w
         \<and> (\<forall>r. r < fresh w \<or> fresh w1 \<le> r \<longrightarrow> ctrls w1 r = ctrls w r)"
proof -
  let ?cs = "seg_controls (segs w s)"
  from m have f: "indexOf (segments w q) (Some s) \<noteq> - 1" by (simp add: indexOf_neg_iff)
  from t have len: "length ?cs = 2 \<or> length ?cs = 4" and nn: "None \<notin> set ?cs" by simp_all
  show ?thesis
  proof (cases "length ?cs = 2")
    case True
    have "seg_set_last (segs w s) (Some pt)
        = (segs w s)\<lparr>seg_controls := seg_controls (seg_set_last (segs w s) (Some pt))\<rparr>"
      by (rule seg_set_last_controls)
    with True f a show ?thesis
      by (simp add: SplitSegment_execute_def Let_def split_beta)
  next
    case False
    with len have l4: "length ?cs = 4" by simp
    then have "?cs ! 1 \<in> set ?cs" "?cs ! 2 \<in> set ?cs" by simp_all
    with nn have "None \<noteq> ?cs ! 1" "None \<noteq> ?cs ! 2" by metis+
    then obtain p1 p2 where p: "?cs ! 1 = Some p1" "?cs ! 2 = Some p2"
      by (cases "?cs ! 1"; cases "?cs ! 2") simp_all
    from l4 f a p show ?thesis
      by (simp add: SplitSegment_execute_def Let_def split_beta)
  qed
qed

lemma SplitSegment_undo_fields [simp]:
  "fst (SplitSegment_undo q s pt pc nc ns w) = SplitSegment q s pt False pc nc ns"
  "segs (snd (SplitSegment_undo q s pt pc nc ns w)) = (segs w)(s := (segs w s)\<lparr>seg_controls := pc\<rparr>)"
  "segments (snd (SplitSegment_undo q s pt pc nc ns w))
     = (segments w)(q := js_splice (segments w q) (indexOf (segments w q) ns) 1 [])"
  "ctrls (snd (SplitSegment_undo q s pt pc nc ns w)) = ctrls w"
  "fresh (snd (SplitSegment_undo q s pt pc nc ns w)) = fresh w"
  "kfs (snd (SplitSegment_undo q s pt pc nc ns w)) = kfs w"
  "props (snd (SplitSegment_undo q s pt pc nc ns w)) = props w"
  "paths (snd (SplitSegment_undo q s pt pc nc ns w)) = paths w"
  by (simp_all add: SplitSegment_undo_def Let_def)

lemma SplitSegment_redo_fields [simp]:
  "fst (SplitSegment_redo q s pt pc nc ns w) = SplitSegment q s pt True pc nc ns"
  "segs (snd (SplitSegment_redo q s pt pc nc ns w)) = (segs w)(s := (segs w s)\<lparr>seg_controls := nc\<rparr>)"
  "segments (snd (SplitSegment_redo q s pt pc nc ns w))
     = (segments w)(q := js_splice (segments w q) (indexOf (segments w q) (Some s) + 1) 0 [ns])"
  "ctrls (snd (SplitSegment_redo q s pt pc nc ns w)) = ctrls w"
  "fresh (snd (SplitSegment_redo q s pt pc nc ns w)) = fresh w"
  "kfs (snd (SplitSegment_redo q s pt pc nc ns w)) = kfs w"
  "props (snd (SplitSegment_redo q s pt pc nc ns w)) = props w"
  "paths (snd (SplitSegment_redo q s pt pc nc ns w)) = paths w"
  by (simp_all add: SplitSegment_redo_def Let_def)

lemma round_trip_SplitSegment:
  assumes "round_trip_ready p (SplitSegment q s pt fw pc nc0 ns0) w"
  shows "\<exists>c1 w1 c2 w2 w3.
           command_execute (SplitSegment q s pt fw pc nc0 ns0) w = Inr (c1, w1)
         \<and> command_undo c1 w1 = Inr (c2, w2) \<and> restored w2 w
         \<and> command_redo c2 w2 = Inr (c1, w3) \<and> same_world w3 w1"
proof -
  let ?ss = "segments w q" and ?cs = "seg_controls (segs w s)"
  let ?i = "indexOf (segments w q) (Some s)"
  from assms have m: "Some s \<in> set ?ss" and t: "typed_segment w (Some s)"
    and al: "\<forall>r \<in> set ?ss. allocated w r" by simp_all
  from al m have a: "s < fresh w" by fastforce
  from split_result[OF m t a, of pt fw nc0 ns0]
  obtain n nc w1 where
    x: "SplitSegment_execute q s pt fw nc0 ns0 w = Inr (SplitSegment q s pt True ?cs nc (Some n), w1)"
    and n: "fresh w \<le> n" "n < fresh w1"
    and g: "segments w1 = (segments w)(q := js_splice ?ss (?i + 1) 0 [Some n])"
    and sg: "\<forall>r. r \<noteq> n \<longrightarrow> segs w1 r = (if r = s then (segs w s)\<lparr>seg_controls := nc\<rparr> else segs w r)"
    and o: "props w1 = props w" "paths w1 = paths w" "kfs w1 = kfs w"
    and c: "\<forall>r. r < fresh w \<or> fresh w1 \<le> r \<longrightarrow> ctrls w1 r = ctrls w r"
    by blast
  from indexOf_in[OF m] have i: "0 \<le> ?i + 1" "nat (?i + 1) \<le> length ?ss" by auto
  have new: "Some n \<notin> set ?ss" using al n(1) by fastforce
  have sn: "s \<noteq> n" using a n(1) by simp
  let ?c1 = "SplitSegment q s pt True ?cs nc (Some n)"
  let ?c2 = "SplitSegment q s pt False ?cs nc (Some n)"
  let ?w2 = "snd (SplitSegment_undo q s pt ?cs nc (Some n) w1)"
  let ?w3 = "snd (SplitSegment_redo q s pt ?cs nc (Some n) ?w2)"
  have g2: "segments ?w2 = segments w"
    using splice_insert_remove[OF new i] by (simp add: g)
  have e: "command_execute (SplitSegment q s pt fw pc nc0 ns0) w = Inr (?c1, w1)"
    by (simp add: x)
  have u: "command_undo ?c1 w1 = Inr (?c2, ?w2)" by (simp add: prod_eq_iff)
  have d: "command_redo ?c2 ?w2 = Inr (?c1, ?w3)" by (simp add: prod_eq_iff)
  have "untouched w ?w2"
    using n c sg sn by (auto simp: untouched_def o)
  with g2 have s2: "restored ?w2 w"
    by (simp add: restored_def o del: SplitSegment_undo_fields(3))
  have nc: "(segs w1 s)\<lparr>seg_controls := nc\<rparr> = segs w1 s" using sg sn by simp
  have "segs ?w3 = segs w1"
    by (simp add: fun_eq_iff nc)
  moreover have "segments ?w3 = segments w1"
    by (simp only: SplitSegment_redo_fields g2 g)
  ultimately have s3: "same_world ?w3 w1"
    by (simp add: same_world_def same_state_def)
  from e u d s2 s3 show ?thesis by blast
qed


subsection \<open>\<open>RemoveSegment\<close>\<close>

lemma seg_set_last_same: "seg_set_last sg (seg_last sg) = sg"
  by (simp add: seg_set_last_def seg_last_def last_conv_nth)

lemma seg_set_last_twice:
  assumes "seg_last sg = Some pt"
  shows "seg_set_last (seg_set_last sg a) (Some pt) = sg"
proof -
  from assms have n: "seg_controls sg \<noteq> []" and l: "last (seg_controls sg) = Some pt"
    by (auto simp: seg_last_def split: if_splits)
  from n l have "(seg_controls sg)[length (seg_controls sg) - 1 := Some pt] = seg_controls sg"
    by (metis last_conv_nth list_update_id)
  with n show ?thesis by (simp add: seg_set_last_def)
qed

text \<open>What the loop of \<open>execute\<close> finds, in an array with no undefined segment.\<close>

lemma find_segment_result:
  assumes "None \<notin> set rs"
  shows "\<exists>res. find_segment sg rs i n pt = Inr res
           \<and> (case res of
                None \<Rightarrow> True
              | Some (j, s, b) \<Rightarrow>
                  i \<le> j \<and> j - i < length rs \<and> rs ! (j - i) = Some s
                  \<and> (b \<longleftrightarrow> seg_first (sg s) = Some pt))"
  using assms
proof (induction rs arbitrary: i)
  case Nil
  then show ?case by simp
next
  case (Cons r rs)
  then obtain s where s: "r = Some s" and n: "None \<notin> set rs" by (cases r) auto
  show ?case
  proof (cases "seg_first (sg s) = Some pt \<or> (i + 1 = n \<and> seg_last (sg s) = Some pt)")
    case True
    with s show ?thesis by auto
  next
    case False
    from Cons.IH[OF n, of "i + 1"] obtain res where
      r: "find_segment sg rs (i + 1) n pt = Inr res"
         "case res of None \<Rightarrow> True
          | Some (j, s, b) \<Rightarrow> i + 1 \<le> j \<and> j - (i + 1) < length rs \<and> rs ! (j - (i + 1)) = Some s
                             \<and> (b \<longleftrightarrow> seg_first (sg s) = Some pt)"
      by blast
    from False s r(1) have "find_segment sg (r # rs) i n pt = Inr res" by auto
    moreover have "case res of None \<Rightarrow> True
          | Some (j, s, b) \<Rightarrow> i \<le> j \<and> j - i < length (r # rs) \<and> (r # rs) ! (j - i) = Some s
                             \<and> (b \<longleftrightarrow> seg_first (sg s) = Some pt)"
    proof (cases res)
      case None
      then show ?thesis by simp
    next
      case (Some t)
      obtain j s' b where t: "t = (j, s', b)" by (cases t)
      with Some r(2) have "i + 1 \<le> j" "j - (i + 1) < length rs" "rs ! (j - (i + 1)) = Some s'"
        "b \<longleftrightarrow> seg_first (sg s') = Some pt" by simp_all
      moreover from this(1) have "j - i = Suc (j - (i + 1))" by simp
      ultimately show ?thesis using Some t by simp
    qed
    ultimately show ?thesis by blast
  qed
qed

lemma splice_remove_nth:
  assumes "j < length xs" "k < j"
  shows "at_index (js_splice xs (int j) 1 []) (int j - 1) = xs ! (j - 1)"
    and "at_index xs (int j - 1) = xs ! (j - 1)"
proof -
  have "js_splice xs (int j) 1 [] = take j xs @ drop (Suc j) xs"
    using splice_remove[of "int j" xs] assms by simp
  moreover have "nat (int j - 1) = j - 1" by simp
  ultimately show "at_index (js_splice xs (int j) 1 []) (int j - 1) = xs ! (j - 1)"
    using assms by (simp add: at_index_def nth_append)
  show "at_index xs (int j - 1) = xs ! (j - 1)"
    using assms \<open>nat (int j - 1) = j - 1\<close> by (simp add: at_index_def)
qed

lemma reattach_at_first:
  assumes "seg_first (segs W s) = Some pt" "0 < idx" "at_index (segments W q) (idx - 1) = Some pv"
  shows "RemoveSegment_reattach q pt idx (Some s) True W
       = Inr (W\<lparr>segs := (segs W)(pv := seg_set_last (segs W pv) (seg_first (segs W s)))\<rparr>)"
  using assms by (simp add: RemoveSegment_reattach_def)

lemma reattach_at_last:
  assumes "seg_first (segs W s) = Some pt" "0 < idx" "at_index (segments W q) (idx - 1) = Some pv"
  shows "RemoveSegment_reattach q pt idx (Some s) False W
       = Inr (W\<lparr>segs := (segs W)(pv := seg_set_last (segs W pv) (seg_last (segs W s)))\<rparr>)"
  using assms by (simp add: RemoveSegment_reattach_def)

lemma round_trip_RemoveSegment:
  assumes "round_trip_ready p (RemoveSegment q pt fw idx sg) w"
  shows "\<exists>c1 w1 c2 w2 w3.
           command_execute (RemoveSegment q pt fw idx sg) w = Inr (c1, w1)
         \<and> command_undo c1 w1 = Inr (c2, w2) \<and> restored w2 w
         \<and> command_redo c2 w2 = Inr (c1, w3) \<and> same_world w3 w1"
proof -
  let ?ss = "segments w q"
  from assms have ix: "idx = - 1" and nn: "None \<notin> set ?ss" and jn: "joined_at w ?ss pt"
    by simp_all
  from find_segment_result[OF nn, of "segs w" 0 "length ?ss" pt] obtain res where
    f: "find_segment (segs w) ?ss 0 (length ?ss) pt = Inr res"
    and fr: "case res of None \<Rightarrow> True
             | Some (j, s, b) \<Rightarrow> 0 \<le> j \<and> j - 0 < length ?ss \<and> ?ss ! (j - 0) = Some s
                                \<and> (b \<longleftrightarrow> seg_first (segs w s) = Some pt)"
    by blast
  show ?thesis
  proof (cases res)
    case None
    let ?c = "RemoveSegment q pt True idx sg"
    have "command_execute (RemoveSegment q pt fw idx sg) w = Inr (?c, w)"
      by (simp add: RemoveSegment_execute_def f None)
    moreover have "command_undo ?c w = Inr (?c, w)" by (simp add: RemoveSegment_undo_def ix)
    moreover have "command_redo ?c w = Inr (?c, w)" by (simp add: RemoveSegment_redo_def ix)
    moreover have "restored w w" by (simp add: restored_def)
    moreover have "same_world w w" by (simp add: same_world_def same_state_def)
    ultimately show ?thesis by blast
  next
    case (Some t)
    obtain j s b where t: "t = (j, s, b)" by (cases t)
    with Some fr have j: "j < length ?ss" and sj: "?ss ! j = Some s"
      and b: "b \<longleftrightarrow> seg_first (segs w s) = Some pt" by simp_all
    have bk: "js_splice (js_splice ?ss (int j) 1 []) (int j) 0 [Some s] = ?ss"
      using splice_back[of "int j" ?ss] j sj by simp
    let ?c1 = "RemoveSegment q pt True (int j) (Some s)"
    let ?c2 = "RemoveSegment q pt False (int j) (Some s)"
    show ?thesis
    proof (cases "b \<and> j \<noteq> 0")
      case False
      let ?w1 = "set_segments q (js_splice ?ss (int j) 1 []) w"
      have nr: "\<And>W tf. segs W = segs w \<Longrightarrow> RemoveSegment_reattach q pt (int j) (Some s) tf W = Inr W"
        using False b by (auto simp: RemoveSegment_reattach_def)
      have e: "command_execute (RemoveSegment q pt fw idx sg) w = Inr (?c1, ?w1)"
        using False by (auto simp: RemoveSegment_execute_def f Some t)
      have u: "command_undo ?c1 ?w1 = Inr (?c2, set_segments q ?ss ?w1)"
        using bk by (simp add: RemoveSegment_undo_def nr)
      have d: "command_redo ?c2 (set_segments q ?ss ?w1)
             = Inr (?c1, set_segments q (js_splice ?ss (int j) 1 []) (set_segments q ?ss ?w1))"
        by (simp add: RemoveSegment_redo_def nr)
      have s2: "restored (set_segments q ?ss ?w1) w" by (simp add: restored_def untouched_def)
      have s3: "same_world (set_segments q (js_splice ?ss (int j) 1 []) (set_segments q ?ss ?w1)) ?w1"
        by (simp add: same_world_def same_state_def)
      from e u d s2 s3 show ?thesis by blast
    next
      case True
      then have j0: "0 < j" and fs: "seg_first (segs w s) = Some pt" using b by simp_all
      have "?ss ! (j - 1) \<in> set ?ss" using j by simp
      with nn obtain pv where pv: "?ss ! (j - 1) = Some pv" by (cases "?ss ! (j - 1)") auto
      have "j \<in> {1 ..< length ?ss}" using j j0 by simp
      with jn have "case (?ss ! (j - 1), ?ss ! j) of
                      (Some a, Some b) \<Rightarrow>
                        seg_first (segs w b) = Some pt \<longrightarrow> seg_last (segs w a) = Some pt
                    | _ \<Rightarrow> True"
        unfolding joined_at_def by blast
      with pv sj fs have lp: "seg_last (segs w pv) = Some pt" by simp
      let ?S1 = "(segs w)(pv := seg_set_last (segs w pv) (seg_last (segs w s)))"
      let ?w1 = "set_segments q (js_splice ?ss (int j) 1 []) (w\<lparr>segs := ?S1\<rparr>)"
      have s1: "?S1 s = segs w s" by (simp add: seg_set_last_same)
      have at1: "at_index ?ss (int j - 1) = Some pv"
        "at_index (js_splice ?ss (int j) 1 []) (int j - 1) = Some pv"
        using splice_remove_nth[OF j, of 0] j0 pv by simp_all
      have e: "command_execute (RemoveSegment q pt fw idx sg) w = Inr (?c1, ?w1)"
        using True by (simp add: RemoveSegment_execute_def f Some t at1)
      let ?W = "set_segments q (js_splice (segments ?w1 q) (int j) 0 [Some s]) ?w1"
      have Wg: "segments ?W = segments w" using bk by simp
      have Ws: "segs ?W = ?S1" by simp
      let ?w2 = "?W\<lparr>segs := (segs ?W)(pv := seg_set_last (segs ?W pv) (seg_first (segs ?W s)))\<rparr>"
      have ra: "RemoveSegment_reattach q pt (int j) (Some s) True ?W = Inr ?w2"
      proof (rule reattach_at_first)
        show "seg_first (segs ?W s) = Some pt" by (simp only: Ws s1 fs)
        show "0 < int j" using j0 by simp
        show "at_index (segments ?W q) (int j - 1) = Some pv" by (simp only: Wg at1)
      qed
      have u: "command_undo ?c1 ?w1 = Inr (?c2, ?w2)"
        unfolding command_undo.simps RemoveSegment_undo_def by (simp only: ra) simp
      have S2: "segs ?w2 = segs w"
      proof -
        have "segs ?w2 = ?S1(pv := seg_set_last (?S1 pv) (seg_first (?S1 s)))" by simp
        also have "\<dots> = ?S1(pv := seg_set_last (?S1 pv) (Some pt))" by (simp only: s1 fs)
        also have "\<dots> = segs w" by (simp add: seg_set_last_twice[OF lp])
        finally show ?thesis .
      qed
      have G2: "segments ?w2 = segments w" using Wg by simp
      have s2: "restored ?w2 w"
        unfolding restored_def untouched_def by (simp only: S2 G2) simp
      let ?V = "set_segments q (js_splice (segments ?w2 q) (int j) 1 []) ?w2"
      have Vg: "segments ?V = (segments w)(q := js_splice ?ss (int j) 1 [])"
        using bk by simp
      have Vs: "segs ?V = segs w" using S2 by simp
      let ?w3 = "?V\<lparr>segs := (segs ?V)(pv := seg_set_last (segs ?V pv) (seg_last (segs ?V s)))\<rparr>"
      have rb: "RemoveSegment_reattach q pt (int j) (Some s) False ?V = Inr ?w3"
      proof (rule reattach_at_last)
        show "seg_first (segs ?V s) = Some pt" by (simp only: Vs fs)
        show "0 < int j" using j0 by simp
        show "at_index (segments ?V q) (int j - 1) = Some pv" using at1 by (simp only: Vg) simp
      qed
      have d: "command_redo ?c2 ?w2 = Inr (?c1, ?w3)"
        unfolding command_redo.simps RemoveSegment_redo_def by (simp only: rb) simp
      have "segs ?w3 = ?S1" using Vs by simp
      moreover have "segments ?w3 = segments ?w1" using bk by simp
      ultimately have s3: "same_world ?w3 ?w1" by (simp add: same_world_def same_state_def)
      from e u d s2 s3 show ?thesis by blast
    qed
  qed
qed


subsection \<open>The sort of an array of keyframes\<close>

text \<open>
  On keyframes whose \<open>xPos\<close> are finite numbers the sort is the stable insertion sort by the
  real \<open>xPos\<close>. A keyframe pushed on an array in ascending order and sorted in comes after
  every keyframe whose \<open>xPos\<close> is not above its own.
\<close>

lemma insort_xPos_real:
  assumes "is_Fin (xPos (k a))" "\<forall>b \<in> set bs. is_Fin (xPos (k b))"
  shows "insort_xPos k a bs = insort_key (\<lambda>a. the_real (xPos (k a))) a bs"
  using assms(2)
proof (induction bs)
  case Nil
  then show ?case by simp
next
  case (Cons b bs)
  from assms(1) obtain x where x: "xPos (k a) = Fin x" by (cases "xPos (k a)") simp_all
  from Cons.prems obtain y where y: "xPos (k b) = Fin y" by (cases "xPos (k b)") simp_all
  from Cons show ?case by (auto simp: x y the_real_def)
qed

lemma set_foldr_insort_key:
  "set (foldr (insort_key f) xs ys) = set xs \<union> set ys"
  by (induction xs) (simp_all add: set_insort_key)

lemma foldr_insort_xPos_real:
  assumes "\<forall>b \<in> set xs \<union> set ys. is_Fin (xPos (k b))"
  shows "foldr (insort_xPos k) xs ys = foldr (insort_key (\<lambda>a. the_real (xPos (k a)))) xs ys"
  using assms
proof (induction xs)
  case Nil
  then show ?case by simp
next
  case (Cons a xs)
  then have ih: "foldr (insort_xPos k) xs ys
               = foldr (insort_key (\<lambda>a. the_real (xPos (k a)))) xs ys" by simp
  have "\<forall>b \<in> set (foldr (insort_key (\<lambda>a. the_real (xPos (k a)))) xs ys). is_Fin (xPos (k b))"
    using Cons.prems by (simp add: set_foldr_insort_key)
  moreover have "is_Fin (xPos (k a))" using Cons.prems by simp
  ultimately show ?case by (simp add: ih insort_xPos_real)
qed

lemma filter_sorted_split:
  assumes "sorted (map g xs)"
  shows "filter (\<lambda>b. g b \<le> c) xs @ filter (\<lambda>b. c < g b) xs = (xs :: 'a list)"
  using assms
proof (induction xs)
  case Nil
  then show ?case by simp
next
  case (Cons b xs)
  show ?case
  proof (cases "g b \<le> c")
    case True
    with Cons show ?thesis by simp
  next
    case False
    with Cons.prems have "\<forall>x \<in> set xs. c < g x" by fastforce
    then have "filter (\<lambda>b. g b \<le> c) xs = []" "filter (\<lambda>b. c < g b) xs = xs"
      by (auto simp: filter_empty_conv filter_id_conv)
    with False show ?thesis by simp
  qed
qed

lemma foldr_insort_last:
  fixes g :: "'a \<Rightarrow> real"
  assumes "sorted (map g xs)"
  shows "foldr (insort_key g) xs [a]
       = filter (\<lambda>b. g b \<le> g a) xs @ a # filter (\<lambda>b. g a < g b) xs"
  using assms
proof (induction xs)
  case Nil
  then show ?case by simp
next
  case (Cons b xs)
  then have ih: "foldr (insort_key g) xs [a]
               = filter (\<lambda>b. g b \<le> g a) xs @ a # filter (\<lambda>b. g a < g b) xs"
    and le: "\<forall>x \<in> set xs. g b \<le> g x" by simp_all
  show ?case
  proof (cases "g b \<le> g a")
    case True
    have "\<forall>x \<in> set (filter (\<lambda>b. g b \<le> g a) xs @ a # filter (\<lambda>b. g a < g b) xs). g b \<le> g x"
      using le True by auto
    then have "insort_key g b (filter (\<lambda>b. g b \<le> g a) xs @ a # filter (\<lambda>b. g a < g b) xs)
             = b # filter (\<lambda>b. g b \<le> g a) xs @ a # filter (\<lambda>b. g a < g b) xs"
      by (rule insort_is_Cons)
    with True show ?thesis by (simp add: ih)
  next
    case False
    with le have gt: "\<forall>x \<in> set xs. g a < g x" by fastforce
    then have e: "filter (\<lambda>b. g b \<le> g a) xs = []" "filter (\<lambda>b. g a < g b) xs = xs"
      by (auto simp: filter_empty_conv filter_id_conv)
    have "insort_key g b xs = b # xs" using le by (intro insort_is_Cons) simp
    with False show ?thesis by (simp add: ih e)
  qed
qed

lemma ascending_list:
  assumes "ascending k rs"
  obtains xs where "rs = map Some xs" "\<forall>b \<in> set xs. is_Fin (xPos (k b))"
    "sorted (map (\<lambda>a. the_real (xPos (k a))) xs)"
proof -
  from assms have n: "None \<notin> set rs" by (simp add: ascending_def)
  then have r: "rs = map Some (map the rs)" by (induction rs) auto
  have fin: "\<forall>b \<in> set (map the rs). is_Fin (xPos (k b))"
  proof
    fix b assume "b \<in> set (map the rs)"
    then obtain r where r: "r \<in> set rs" "b = the r" by auto
    with n obtain c where c: "r = Some c" by (cases r) auto
    from assms have "\<forall>r \<in> set rs. case r of None \<Rightarrow> True | Some a \<Rightarrow> is_Fin (xPos (k a))"
      by (simp add: ascending_def)
    with r c show "is_Fin (xPos (k b))" by fastforce
  qed
  have km: "map (\<lambda>a. the_real (xPos (k a))) (map the rs) = map (key_of k) rs"
    using n by (induction rs) (auto simp: key_of_def split: option.splits)
  from assms have "sorted (map (key_of k) rs)" by (simp add: ascending_def)
  then have "sorted (map (\<lambda>a. the_real (xPos (k a))) (map the rs))" by (simp only: km)
  from that[OF r fin this] show ?thesis .
qed

lemma push_sorted:
  assumes "ascending k rs" "is_Fin (xPos (k a))"
  shows "sort_xPos k (rs @ [Some a])
       = filter (\<lambda>r. key_of k r \<le> key_of k (Some a)) rs
         @ Some a # filter (\<lambda>r. key_of k (Some a) < key_of k r) rs"
proof -
  let ?g = "\<lambda>a. the_real (xPos (k a))"
  from assms(1) obtain xs where rs: "rs = map Some xs" and fin: "\<forall>b \<in> set xs. is_Fin (xPos (k b))"
    and srt: "sorted (map ?g xs)" by (rule ascending_list)
  have mf: "List.map_filter (\<lambda>r. r) (map Some xs @ [Some a]) = xs @ [a]"
    by (simp add: List.map_filter_def comp_def)
  have nf: "filter (\<lambda>r. r = None) (map Some xs @ [Some a]) = []"
    by (simp add: filter_empty_conv)
  have "foldr (insort_xPos k) (xs @ [a]) [] = foldr (insort_xPos k) xs [a]" by simp
  also have "\<dots> = foldr (insort_key ?g) xs [a]"
    using fin assms(2) by (intro foldr_insort_xPos_real) simp
  also have "\<dots> = filter (\<lambda>b. ?g b \<le> ?g a) xs @ a # filter (\<lambda>b. ?g a < ?g b) xs"
    by (rule foldr_insort_last[OF srt])
  finally show ?thesis
    by (simp add: sort_xPos_def rs mf nf filter_map comp_def key_of_def)
qed

lemma remove_mid:
  assumes "a \<notin> set ys"
  shows "js_splice (ys @ a # zs) (indexOf (ys @ a # zs) a) 1 [] = ys @ zs"
  by (simp add: indexOf_first[OF assms] js_splice_def Let_def)

lemma ascending_split:
  assumes "ascending k rs"
  shows "filter (\<lambda>r. key_of k r \<le> c) rs @ filter (\<lambda>r. c < key_of k r) rs = rs"
  using assms by (intro filter_sorted_split) (simp add: ascending_def)

text \<open>A keyframe that is pushed and sorted in, and then removed.\<close>

lemma push_remove:
  assumes "ascending k rs" "is_Fin (xPos (k a))" "Some a \<notin> set rs"
  shows "js_splice (sort_xPos k (rs @ [Some a])) (indexOf (sort_xPos k (rs @ [Some a])) (Some a)) 1 []
       = rs"
proof -
  have "Some a \<notin> set (filter (\<lambda>r. key_of k r \<le> key_of k (Some a)) rs)" using assms(3) by simp
  from remove_mid[OF this] show ?thesis
    by (simp only: push_sorted[OF assms(1,2)] ascending_split[OF assms(1)])
qed

lemma push_found:
  assumes "ascending k rs" "is_Fin (xPos (k a))"
  shows "indexOf (sort_xPos k (rs @ [Some a])) (Some a) \<noteq> - 1"
  by (simp add: push_sorted[OF assms] indexOf_neg_iff)

text \<open>A keyframe that is taken out of its array, pushed and sorted in again.\<close>

lemma push_back:
  assumes a: "ascending k (ys @ Some a # zs)"
    and z: "\<forall>r \<in> set zs. key_of k r \<noteq> key_of k (Some a)"
  shows "sort_xPos k ((ys @ zs) @ [Some a]) = ys @ Some a # zs"
proof -
  from a have s: "sorted (map (key_of k) (ys @ Some a # zs))" and n: "None \<notin> set (ys @ zs)"
    and f: "\<forall>r \<in> set (ys @ Some a # zs). case r of None \<Rightarrow> True | Some a \<Rightarrow> is_Fin (xPos (k a))"
    by (simp_all add: ascending_def)
  from s have sy: "\<forall>r \<in> set ys. key_of k r \<le> key_of k (Some a)"
    and sz: "\<forall>r \<in> set zs. key_of k (Some a) \<le> key_of k r"
    and s': "sorted (map (key_of k) (ys @ zs))"
    by (auto simp: sorted_append)
  from sz z have gz: "\<forall>r \<in> set zs. key_of k (Some a) < key_of k r" by fastforce
  have asc: "ascending k (ys @ zs)" using s' n f by (simp add: ascending_def)
  have fin: "is_Fin (xPos (k a))" using f by simp
  have "filter (\<lambda>r. key_of k r \<le> key_of k (Some a)) (ys @ zs) = ys"
    using sy gz by (auto simp: filter_empty_conv filter_id_conv)
  moreover have "filter (\<lambda>r. key_of k (Some a) < key_of k r) (ys @ zs) = zs"
    using sy gz by (auto simp: filter_empty_conv filter_id_conv)
  ultimately show ?thesis by (simp only: push_sorted[OF asc fin])
qed

lemma ascending_cong:
  assumes "\<forall>a. Some a \<in> set rs \<longrightarrow> xPos (k' a) = xPos (k a)"
  shows "ascending k' rs = ascending k rs"
proof -
  have m: "map (key_of k') rs = map (key_of k) rs"
    using assms by (auto simp: key_of_def split: option.splits)
  have q: "(\<forall>r \<in> set rs. case r of None \<Rightarrow> True | Some a \<Rightarrow> is_Fin (xPos (k' a)))
         = (\<forall>r \<in> set rs. case r of None \<Rightarrow> True | Some a \<Rightarrow> is_Fin (xPos (k a)))"
    using assms by (auto split: option.splits)
  show ?thesis unfolding ascending_def m q by (rule refl)
qed

lemma sort_xPos_cong:
  assumes "\<forall>a. Some a \<in> set rs \<longrightarrow> xPos (k' a) = xPos (k a)"
  shows "sort_xPos k' rs = sort_xPos k rs"
proof -
  have i: "\<And>a bs. xPos (k' a) = xPos (k a) \<Longrightarrow> \<forall>b \<in> set bs. xPos (k' b) = xPos (k b)
            \<Longrightarrow> insort_xPos k' a bs = insort_xPos k a bs"
  proof -
    fix a bs show "xPos (k' a) = xPos (k a) \<Longrightarrow> \<forall>b \<in> set bs. xPos (k' b) = xPos (k b)
            \<Longrightarrow> insort_xPos k' a bs = insort_xPos k a bs"
      by (induction bs) simp_all
  qed
  have s: "\<And>a bs. set (insort_xPos k a bs) = insert a (set bs)"
  proof -
    fix a bs show "set (insort_xPos k a bs) = insert a (set bs)" by (induction bs) auto
  qed
  have f: "\<And>xs. \<forall>b \<in> set xs. xPos (k' b) = xPos (k b)
            \<Longrightarrow> foldr (insort_xPos k') xs [] = foldr (insort_xPos k) xs []
                \<and> set (foldr (insort_xPos k) xs []) = set xs"
  proof -
    fix xs show "\<forall>b \<in> set xs. xPos (k' b) = xPos (k b)
            \<Longrightarrow> foldr (insort_xPos k') xs [] = foldr (insort_xPos k) xs []
                \<and> set (foldr (insort_xPos k) xs []) = set xs"
      by (induction xs) (simp_all add: i s)
  qed
  have "\<forall>b \<in> set (List.map_filter (\<lambda>r. r) rs). xPos (k' b) = xPos (k b)"
    using assms by (auto simp: List.map_filter_def)
  from f[OF this] show ?thesis by (simp add: sort_xPos_def)
qed


subsection \<open>The keyframe commands\<close>

lemma push_keyframe_fields [simp]:
  "segs (push_keyframe s r w)
     = (segs w)(s := (segs w s)\<lparr>speedProfiles := sort_xPos (kfs w) (speedProfiles (segs w s) @ [r])\<rparr>)"
  "ctrls (push_keyframe s r w) = ctrls w"
  "fresh (push_keyframe s r w) = fresh w"
  "segments (push_keyframe s r w) = segments w"
  "kfs (push_keyframe s r w) = kfs w"
  "props (push_keyframe s r w) = props w"
  "paths (push_keyframe s r w) = paths w"
  by (simp_all add: push_keyframe_def)

lemma find_keyframe_result:
  assumes "None \<notin> set rs"
  shows "\<exists>res. find_keyframe sg rs kf = Inr res
           \<and> (case res of
                None \<Rightarrow> True
              | Some (s, i) \<Rightarrow> i = indexOf (speedProfiles (sg s)) (Some kf)
                              \<and> Some kf \<in> set (speedProfiles (sg s)))"
  using assms
proof (induction rs)
  case Nil
  then show ?case by simp
next
  case (Cons r rs)
  then obtain s where s: "r = Some s" and n: "None \<notin> set rs" by (cases r) auto
  from Cons.IH[OF n] s show ?case by (auto simp: Let_def indexOf_neg_iff)
qed

lemma round_trip_RemoveKeyframe:
  assumes "round_trip_ready p (RemoveKeyframe q kf sg oi) w"
  shows "\<exists>c1 w1 c2 w2 w3.
           command_execute (RemoveKeyframe q kf sg oi) w = Inr (c1, w1)
         \<and> command_undo c1 w1 = Inr (c2, w2) \<and> restored w2 w
         \<and> command_redo c2 w2 = Inr (c1, w3) \<and> same_world w3 w1"
proof -
  from assms have oi: "oi = - 1" and nn: "None \<notin> set (segments w q)" by simp_all
  from find_keyframe_result[OF nn, of "segs w" kf] obtain res where
    f: "find_keyframe (segs w) (segments w q) kf = Inr res"
    and fr: "case res of None \<Rightarrow> True
             | Some (s, i) \<Rightarrow> i = indexOf (speedProfiles (segs w s)) (Some kf)
                             \<and> Some kf \<in> set (speedProfiles (segs w s))"
    by blast
  show ?thesis
  proof (cases res)
    case None
    let ?c = "RemoveKeyframe q kf sg oi"
    have "command_execute ?c w = Inr (?c, w)" by (simp add: RemoveKeyframe_execute_def f None)
    moreover have "command_undo ?c w = Inr (?c, w)" by (simp add: oi split: option.splits)
    moreover have "command_redo ?c w = Inr (?c, w)" by (simp add: oi split: option.splits)
    moreover have "restored w w" by (simp add: restored_def)
    moreover have "same_world w w" by (simp add: same_world_def same_state_def)
    ultimately show ?thesis by blast
  next
    case (Some t)
    obtain s i where t: "t = (s, i)" by (cases t)
    let ?ps = "speedProfiles (segs w s)"
    from Some t fr have i: "i = indexOf ?ps (Some kf)" and m: "Some kf \<in> set ?ps" by simp_all
    from indexOf_in[OF m] i have i0: "0 \<le> i" "nat i < length ?ps" "?ps ! nat i = Some kf"
      by simp_all
    then have ne: "i \<noteq> - 1" by simp
    have bk: "js_splice (js_splice ?ps i 1 []) i 0 [Some kf] = ?ps"
      using splice_back[OF i0(1,2)] i0(3) by simp
    let ?c = "RemoveKeyframe q kf (Some s) i"
    let ?w1 = "set_profiles s (js_splice ?ps i 1 []) w"
    let ?w2 = "set_profiles s (js_splice (speedProfiles (segs ?w1 s)) i 0 [Some kf]) ?w1"
    let ?w3 = "set_profiles s (js_splice (speedProfiles (segs ?w2 s)) i 1 []) ?w2"
    have e: "command_execute (RemoveKeyframe q kf sg oi) w = Inr (?c, ?w1)"
      by (simp add: RemoveKeyframe_execute_def f Some t)
    have u: "command_undo ?c ?w1 = Inr (?c, ?w2)" using ne by simp
    have d: "command_redo ?c ?w2 = Inr (?c, ?w3)" using ne by simp
    have S2: "segs ?w2 = segs w" using bk by simp
    have s2: "restored ?w2 w"
      unfolding restored_def untouched_def by (simp only: S2) simp
    have "segs ?w3 = segs ?w1" using bk by simp
    then have s3: "same_world ?w3 ?w1" by (simp add: same_world_def same_state_def)
    from e u d s2 s3 show ?thesis by blast
  qed
qed

lemma round_trip_AddKeyframe:
  assumes "round_trip_ready p (AddKeyframe q pos kf0) w"
  shows "\<exists>c1 w1 c2 w2 w3.
           command_execute (AddKeyframe q pos kf0) w = Inr (c1, w1)
         \<and> command_undo c1 w1 = Inr (c2, w2) \<and> restored w2 w
         \<and> command_redo c2 w2 = Inr (c1, w3) \<and> same_world w3 w1"
proof -
  let ?s = "kp_segment pos" and ?k = "fresh w"
  let ?ps = "speedProfiles (segs w (kp_segment pos))"
  let ?K = "(kfs w)(fresh w := \<lparr>xPos = kp_xPos pos, yPos = kp_yPos pos\<rparr>)"
  from assms have fin: "is_Fin (kp_xPos pos)" and asc: "ascending (kfs w) ?ps"
    and al: "\<forall>r \<in> set ?ps. allocated w r" by simp_all
  have new: "Some ?k \<notin> set ?ps" using al by fastforce
  have "\<forall>a. Some a \<in> set ?ps \<longrightarrow> xPos (?K a) = xPos (kfs w a)" using new by auto
  then have "ascending ?K ?ps = ascending (kfs w) ?ps" by (rule ascending_cong)
  with asc have asc': "ascending ?K ?ps" by (simp only:)
  have fin': "is_Fin (xPos (?K ?k))" using fin by simp
  let ?P = "sort_xPos ?K (?ps @ [Some ?k])"
  have rm: "js_splice ?P (indexOf ?P (Some ?k)) 1 [] = ?ps"
    by (rule push_remove[OF asc' fin' new])
  let ?c = "AddKeyframe q pos (Some ?k)"
  let ?w1 = "push_keyframe ?s (Some ?k) (snd (new_Keyframe (kp_xPos pos) (kp_yPos pos) w))"
  let ?w2 = "set_profiles ?s ?ps ?w1"
  let ?w3 = "push_keyframe ?s (Some ?k) ?w2"
  have P1: "speedProfiles (segs ?w1 ?s) = ?P" by simp
  have e: "command_execute (AddKeyframe q pos kf0) w = Inr (?c, ?w1)"
    by (simp add: split_beta)
  have u: "command_undo ?c ?w1 = Inr (?c, ?w2)"
    unfolding command_undo.simps Let_def by (simp only: P1 rm)
  have d: "command_redo ?c ?w2 = Inr (?c, ?w3)" by simp
  have S2: "segs ?w2 = segs w" by (simp add: fun_eq_iff)
  have s2: "restored ?w2 w"
    unfolding restored_def untouched_def by (simp only: S2) simp
  have "segs ?w3 = segs ?w1" by (simp add: fun_eq_iff)
  then have s3: "same_world ?w3 ?w1" by (simp add: same_world_def same_state_def)
  from e u d s2 s3 show ?thesis by blast
qed


lemma indexOf_take:
  assumes "a \<in> set xs"
  shows "a \<notin> set (take (nat (indexOf xs a)) xs)"
  using assms
proof (induction xs)
  case Nil
  then show ?case by simp
next
  case (Cons b xs)
  show ?case
  proof (cases "b = a")
    case True
    then show ?thesis by simp
  next
    case False
    with Cons.prems have m: "a \<in> set xs" by simp
    from indexOf_in[OF m] have "0 \<le> indexOf xs a" by simp
    then have "nat (indexOf xs a + 1) = Suc (nat (indexOf xs a))" by simp
    with False Cons.IH[OF m] indexOf_in[OF m] show ?thesis by (simp add: Let_def)
  qed
qed

lemma ascending_remove:
  assumes "ascending k (ys @ a # zs)"
  shows "ascending k (ys @ zs)"
  using assms by (auto simp: ascending_def sorted_append)

lemma addKeyframe_fields [simp]:
  "kfs (MoveKeyframe_addKeyframe kf pos w)
     = (kfs w)(kf := (kfs w kf)\<lparr>xPos := kp_xPos pos, yPos := kp_yPos pos\<rparr>)"
  "segs (MoveKeyframe_addKeyframe kf pos w)
     = (segs w)(kp_segment pos := (segs w (kp_segment pos))
          \<lparr>speedProfiles :=
             sort_xPos ((kfs w)(kf := (kfs w kf)\<lparr>xPos := kp_xPos pos, yPos := kp_yPos pos\<rparr>))
               (speedProfiles (segs w (kp_segment pos)) @ [Some kf])\<rparr>)"
  "ctrls (MoveKeyframe_addKeyframe kf pos w) = ctrls w"
  "fresh (MoveKeyframe_addKeyframe kf pos w) = fresh w"
  "segments (MoveKeyframe_addKeyframe kf pos w) = segments w"
  "props (MoveKeyframe_addKeyframe kf pos w) = props w"
  "paths (MoveKeyframe_addKeyframe kf pos w) = paths w"
  by (simp_all add: MoveKeyframe_addKeyframe_def)

lemma removeKeyframe_fields [simp]:
  "kfs (MoveKeyframe_removeKeyframe kf pos w) = kfs w"
  "ctrls (MoveKeyframe_removeKeyframe kf pos w) = ctrls w"
  "fresh (MoveKeyframe_removeKeyframe kf pos w) = fresh w"
  "segments (MoveKeyframe_removeKeyframe kf pos w) = segments w"
  "props (MoveKeyframe_removeKeyframe kf pos w) = props w"
  "paths (MoveKeyframe_removeKeyframe kf pos w) = paths w"
  by (simp_all add: MoveKeyframe_removeKeyframe_def Let_def)

lemma removeKeyframe_segs:
  assumes "indexOf (speedProfiles (segs w (kp_segment pos))) (Some kf) \<noteq> - 1"
  shows "segs (MoveKeyframe_removeKeyframe kf pos w)
       = (segs w)(kp_segment pos := (segs w (kp_segment pos))
            \<lparr>speedProfiles := js_splice (speedProfiles (segs w (kp_segment pos)))
                                (indexOf (speedProfiles (segs w (kp_segment pos))) (Some kf)) 1 []\<rparr>)"
  using assms by (simp add: MoveKeyframe_removeKeyframe_def Let_def)

lemma round_trip_MoveKeyframe:
  assumes "round_trip_ready p (MoveKeyframe q np kf op) w"
  shows "\<exists>c1 w1 c2 w2 w3.
           command_execute (MoveKeyframe q np kf op) w = Inr (c1, w1)
         \<and> command_undo c1 w1 = Inr (c2, w2) \<and> restored w2 w
         \<and> command_redo c2 w2 = Inr (c1, w3) \<and> same_world w3 w1"
proof -
  let ?K = "kfs w" and ?sn = "kp_segment np"
  let ?K' = "(kfs w)(kf := (kfs w kf)\<lparr>xPos := kp_xPos np, yPos := kp_yPos np\<rparr>)"
  from assms have fin: "is_Fin (kp_xPos np)" and nn: "None \<notin> set (segments w q)" by simp_all
  from assms obtain s0 i where f: "find_keyframe (segs w) (segments w q) kf = Inr (Some (s0, i))"
    by (auto split: sum.splits option.splits)
  let ?ps0 = "speedProfiles (segs w s0)" and ?psn = "speedProfiles (segs w (kp_segment np))"
  from assms f have asc0: "ascending ?K ?ps0"
    and later: "\<forall>r \<in> set (drop (nat i + 1) ?ps0). key_of ?K r \<noteq> key_of ?K (Some kf)"
    and other: "?sn \<noteq> s0 \<longrightarrow> ascending ?K ?psn \<and> Some kf \<notin> set ?psn" by simp_all
  from find_keyframe_result[OF nn, of "segs w" kf] f
  have i: "i = indexOf ?ps0 (Some kf)" and m: "Some kf \<in> set ?ps0" by auto
  from indexOf_in[OF m] i have i0: "0 \<le> i" "nat i < length ?ps0" "?ps0 ! nat i = Some kf"
    by simp_all
  then have ne: "indexOf ?ps0 (Some kf) \<noteq> - 1" using i by simp
  let ?ys = "take (nat i) ?ps0" and ?zs = "drop (Suc (nat i)) ?ps0"
  let ?B0 = "?ys @ ?zs"
  have split: "?ps0 = ?ys @ Some kf # ?zs" using i0 by (metis id_take_nth_drop)
  have B0: "js_splice ?ps0 i 1 [] = ?B0" by (rule splice_remove[OF i0(1,2)])
  have ny: "Some kf \<notin> set ?ys" using indexOf_take[OF m] i by simp
  have z: "\<forall>r \<in> set ?zs. key_of ?K r \<noteq> key_of ?K (Some kf)" using later by simp
  then have nz: "Some kf \<notin> set ?zs" by blast
  have ascB0: "ascending ?K ?B0" using asc0 split ascending_remove by metis
  have bk0: "sort_xPos ?K (?B0 @ [Some kf]) = ?ps0"
  proof -
    have "ascending ?K (?ys @ Some kf # ?zs)" using asc0 split by simp
    from push_back[OF this z] split show ?thesis by simp
  qed
  let ?S0 = "(segs w)(s0 := (segs w s0)\<lparr>speedProfiles := ?B0\<rparr>)"
  let ?B = "speedProfiles (?S0 ?sn)"
  have Bn: "Some kf \<notin> set ?B" and ascB: "ascending ?K ?B"
    using ny nz ascB0 other by auto
  have "\<forall>a. Some a \<in> set ?B \<longrightarrow> xPos (?K' a) = xPos (?K a)" using Bn by auto
  then have "ascending ?K' ?B = ascending ?K ?B" by (rule ascending_cong)
  with ascB have ascB': "ascending ?K' ?B" by (simp only:)
  have fin': "is_Fin (xPos (?K' kf))" using fin by simp
  let ?P1 = "sort_xPos ?K' (?B @ [Some kf])"
  have rm: "js_splice ?P1 (indexOf ?P1 (Some kf)) 1 [] = ?B"
    by (rule push_remove[OF ascB' fin' Bn])
  have fd: "indexOf ?P1 (Some kf) \<noteq> - 1" by (rule push_found[OF ascB' fin'])
  let ?S1 = "?S0(?sn := (?S0 ?sn)\<lparr>speedProfiles := ?P1\<rparr>)"
  let ?old = "\<lparr>kp_segment = s0, kp_xPos = xPos (kfs w kf), kp_yPos = yPos (kfs w kf)\<rparr>"
  let ?c = "MoveKeyframe q np kf (Some ?old)"
  let ?w1 = "MoveKeyframe_addKeyframe kf np (set_profiles s0 (js_splice ?ps0 i 1 []) w)"
  let ?R = "MoveKeyframe_removeKeyframe kf np ?w1"
  let ?w2 = "MoveKeyframe_addKeyframe kf ?old ?R"
  let ?V = "MoveKeyframe_removeKeyframe kf ?old ?w2"
  let ?w3 = "MoveKeyframe_addKeyframe kf np ?V"
  have e: "command_execute (MoveKeyframe q np kf op) w = Inr (?c, ?w1)"
    by (simp add: MoveKeyframe_execute_def f)
  have u: "command_undo ?c ?w1 = Inr (?c, ?w2)" by simp
  have d: "command_redo ?c ?w2 = Inr (?c, ?w3)" by simp
  have S1: "segs ?w1 = ?S1" by (simp only: addKeyframe_fields set_profiles_fields B0)
  have K1: "kfs ?w1 = ?K'" by simp
  have P1: "speedProfiles (?S1 ?sn) = ?P1" by simp
  have SR: "segs ?R = ?S0"
  proof -
    have "indexOf (speedProfiles (segs ?w1 ?sn)) (Some kf) \<noteq> - 1" using fd by (simp only: S1 P1 not_False_eq_True)
    from removeKeyframe_segs[OF this]
    have "segs ?R = ?S1(?sn := (?S1 ?sn)\<lparr>speedProfiles := ?B\<rparr>)" by (simp only: S1 P1 rm)
    also have "\<dots> = ?S0" by (simp add: fun_eq_iff)
    finally show ?thesis .
  qed
  have KR: "kfs ?R = ?K'" by simp
  have K2: "kfs ?w2 = ?K" by (simp add: fun_eq_iff)
  have S2: "segs ?w2 = segs w"
  proof -
    have "segs ?w2 = ?S0(s0 := (?S0 s0)\<lparr>speedProfiles :=
                        sort_xPos ?K (speedProfiles (?S0 s0) @ [Some kf])\<rparr>)"
      using K2 by (simp only: addKeyframe_fields SR KeyframePos.simps)
    also have "\<dots> = ?S0(s0 := (?S0 s0)\<lparr>speedProfiles := ?ps0\<rparr>)" using bk0 by simp
    also have "\<dots> = segs w" by (simp add: fun_eq_iff)
    finally show ?thesis .
  qed
  have s2: "restored ?w2 w"
    unfolding restored_def untouched_def by (simp only: S2 K2) simp
  have SV: "segs ?V = ?S0"
  proof -
    have "indexOf (speedProfiles (segs ?w2 (kp_segment ?old))) (Some kf) \<noteq> - 1"
      using ne by (simp only: S2 KeyframePos.simps not_False_eq_True)
    from removeKeyframe_segs[OF this]
    have "segs ?V = (segs ?w2)(s0 := (segs ?w2 s0)
            \<lparr>speedProfiles := js_splice (speedProfiles (segs ?w2 s0))
                                (indexOf (speedProfiles (segs ?w2 s0)) (Some kf)) 1 []\<rparr>)"
      by (simp only: KeyframePos.simps)
    also have "\<dots> = (segs w)(s0 := (segs w s0)
            \<lparr>speedProfiles := js_splice ?ps0 (indexOf ?ps0 (Some kf)) 1 []\<rparr>)"
      by (simp only: S2)
    also have "\<dots> = ?S0" by (simp only: i[symmetric] B0)
    finally show ?thesis .
  qed
  have KV: "kfs ?V = ?K" using K2 by simp
  have S3: "segs ?w3 = ?S1" by (simp only: addKeyframe_fields SV KV)
  have K3: "kfs ?w3 = ?K'" by (simp only: addKeyframe_fields KV)
  have s3: "same_world ?w3 ?w1"
    unfolding same_world_def same_state_def by (simp only: S3 S1 K3 K1) simp
  from e u d s2 s3 show ?thesis by blast
qed


subsection \<open>The round trip\<close>

lemma Drag_execute_same_ctrls:
  assumes "ctrls w' = ctrls w"
  shows "ctrls (Drag_execute m frm to fs w') = ctrls (Drag_execute m frm to fs w)"
  by (simp only: Drag_execute_ctrls assms)

lemma UIP_execute_length:
  "distinct ts \<Longrightarrow> length (fst (UIP_execute ts vals heap)) = length ts"
  by (simp add: UIP_execute_distinct)



text \<open>The example drag, whose points have whole coordinates, is ready at \<open>p = 2\<close>; so are
  the move of keyframe 21, the last of the two keyframes at \<open>xPos\<close> 0.5, and the split of
  segment 10.\<close>

lemma ex_drag_ready: "round_trip_ready 2 ex_drag ex_editor"
  by (simp add: ex_drag_def ex_editor_def grid_point_def on_grid_def precision_def new_Vertex_def
      at_rest_def Vertex_fixPrecision_def EndPointControl_fixPrecision_def normalize_heading_def
      round_to_def trunc_def Let_def)

lemma ex_track_fields:
  "segments ex_track 0 = [Some 10, Some 11]"
  "speedProfiles (segs ex_track 10) = [Some 20, Some 21]"
  "speedProfiles (segs ex_track 11) = []"
  "seg_controls (segs ex_track 10) = [Some 2, Some 3]"
  "xPos (kfs ex_track 20) = Fin (1 / 2)" "xPos (kfs ex_track 21) = Fin (1 / 2)"
  "fresh ex_track = 100"
  by (simp_all add: ex_track_def ex_editor_def)

lemma ex_move_last_ready: "round_trip_ready 2 ex_move_last ex_track"
  by (simp add: ex_move_last_def ex_track_fields Let_def ascending_def key_of_def the_real_def)

lemma ex_split_ready: "round_trip_ready 2 ex_split ex_track"
  by (simp add: ex_split_def ex_track_fields)


text \<open>
  Why no target is named twice: an update of \<open>lock\<close> to true whose array of targets names
  object 1 twice. \<open>execute\<close> records false, then true, as the previous values; \<open>undo\<close>
  writes them back in the same order, and \<open>lock\<close>, false before \<open>execute\<close>, is true after
  \<open>undo\<close>.
\<close>

lemma update_target_listed_twice:
  "get_prop (props ex_editor 1) ''lock'' = JBool False
   \<and> ex_update_twice_undone = Inr (JBool True)"
  by (simp add: ex_update_twice_undone_def ex_update_twice_def ex_editor_def and_then_def
      UIP_execute_def UIP_undo_def updatePropertiesForTarget_def get_prop_def Let_def
      numeral_2_eq_2)

text \<open>
  Why a segment that is split is in the path: \<open>execute\<close> returns at once when it is not,
  and \<open>undo\<close>, which has no such test, looks for a new segment that is undefined and takes
  the last segment off the path.
\<close>

lemma split_of_absent_segment:
  "segments ex_track 0 = [Some 10, Some 11] \<and> ex_split_absent_undone = Inr [Some 10]"
  by (simp add: ex_split_absent_undone_def and_then_def SplitSegment_execute_def
      SplitSegment_undo_def ex_track_fields Let_def js_splice_def set_controls_def
      set_segments_def)

section \<open>Merging\<close>

subsection \<open>\<open>UpdateInstancesProperties.merge\<close>\<close>

lemma map_add_twice: "m ++ l ++ l = m ++ (l :: 'a \<rightharpoonup> 'b)"
  by (simp add: map_add_def fun_eq_iff split: option.splits)

lemma UIP_merge_loop_closed:
  assumes "latest_previousValue latest = Some lp" "distinct js" "\<forall>i \<in> set js. i < length tp"
  shows "UIP_merge_loop js latest (Some tp) vals =
     Inr (Some (map (\<lambda>i. if i \<in> set js
                          then (if i < length lp then lp ! i else Map.empty) ++ (tp ! i)
                          else tp ! i) [0 ..< length tp]),
          if js = [] then vals else vals ++ latest_newValues latest)"
  using assms(2,3)
proof (induction js arbitrary: tp vals)
  case Nil
  show ?case by (simp add: map_nth)
next
  case (Cons i js)
  let ?L = "\<lambda>i. if i < length lp then lp ! i else Map.empty"
  let ?tp = "tp[i := ?L i ++ (tp ! i)]"
  from Cons.prems have d: "distinct js" "i \<notin> set js" and b: "i < length tp"
    and bs: "\<forall>j \<in> set js. j < length ?tp" by simp_all
  have "UIP_merge_loop (i # js) latest (Some tp) vals
      = UIP_merge_loop js latest (Some ?tp) (vals ++ latest_newValues latest)"
    using b by (simp add: assms(1))
  also have "\<dots> = Inr (Some (map (\<lambda>j. if j \<in> set js then ?L j ++ (?tp ! j) else ?tp ! j)
                              [0 ..< length ?tp]),
          if js = [] then vals ++ latest_newValues latest
          else (vals ++ latest_newValues latest) ++ latest_newValues latest)"
    by (rule Cons.IH[OF d(1) bs])
  also have "\<dots> = Inr (Some (map (\<lambda>j. if j \<in> set (i # js) then ?L j ++ (tp ! j) else tp ! j)
                              [0 ..< length tp]),
          if i # js = [] then vals else vals ++ latest_newValues latest)"
    using d(2) b by (auto simp: nth_list_update map_add_twice)
  finally show ?case .
qed

lemma merged_read:
  "get_prop (obj ++ va ++ vb
       ++ fst (updatePropertiesForTarget (obj ++ va) vb) ++ fst (updatePropertiesForTarget obj va))
     key = get_prop obj key"
  by (simp add: updatePropertiesForTarget_def get_prop_def map_add_def split: option.splits)

lemma UIP_merged_undo_reads:
  assumes d: "distinct ts"
  shows "reads (UIP_undo ts
                 (map (\<lambda>i. (fst (UIP_execute ts vb (snd (UIP_execute ts va heap))) ! i)
                            ++ (fst (UIP_execute ts va heap) ! i)) [0 ..< length ts])
                 (snd (UIP_execute ts vb (snd (UIP_execute ts va heap)))))
         = reads heap"
proof (intro ext)
  fix r key
  let ?h1 = "snd (UIP_execute ts va heap)" and ?pa = "fst (UIP_execute ts va heap)"
  let ?h2 = "snd (UIP_execute ts vb ?h1)" and ?pb = "fst (UIP_execute ts vb ?h1)"
  let ?pm = "map (\<lambda>i. (?pb ! i) ++ (?pa ! i)) [0 ..< length ts]"
  have len: "length ?pm = length ts" by simp
  show "reads (UIP_undo ts ?pm ?h2) r key = reads heap r key"
  proof (cases "r \<in> set ts")
    case True
    then obtain i where i: "i < length ts" "ts ! i = r" by (auto simp: in_set_conv_nth)
    have "UIP_undo ts ?pm ?h2 r = ?h2 r ++ (?pm ! i)"
      using UIP_undo_distinct[OF d len i(1), of ?h2] i(2) by simp
    then show ?thesis
      using True i by (simp add: UIP_execute_distinct[OF d] reads_def merged_read)
  next
    case False
    then show ?thesis
      using UIP_undo_other[OF d len False, of ?h2]
      by (simp add: UIP_execute_distinct[OF d] reads_def)
  qed
qed

subsection \<open>Two drags undone as one\<close>

lemma Drag_merged_round_trip:
  assumes gp: "grid_point p f" "grid_point p t1" "grid_point p f2" "grid_point p t2"
    and same: "get_x f2 = get_x t1" "get_y f2 = get_y t1"
    and inv: "\<forall>r \<in> insert m (set fs). at_rest (ctrls w r) \<and> grid_point p (ctrls w r)"
    and mm: "get_x (ctrls w m) = get_x f" "get_y (ctrls w m) = get_y f"
  shows "ctrls (Drag_undo m f t2 fs (Drag_execute m f2 t2 fs (Drag_execute m f t1 fs w))) = ctrls w"
proof -
  let ?X = "\<lambda>r. the_real (get_x (ctrls w r))" and ?Y = "\<lambda>r. the_real (get_y (ctrls w r))"
  let ?S = "insert m (set fs)"
  let ?w1 = "Drag_execute m f t1 fs w"
  let ?w2 = "Drag_execute m f2 t2 fs ?w1"
  let ?w3 = "Drag_execute m t2 f fs ?w2"
  define fx fy ax ay bx bY tx ty where "fx = the_real (get_x f)" and "fy = the_real (get_y f)"
    and "ax = the_real (get_x t1)" and "ay = the_real (get_y t1)"
    and "bx = the_real (get_x f2)" and "bY = the_real (get_y f2)"
    and "tx = the_real (get_x t2)" and "ty = the_real (get_y t2)"
  have cf: "get_x f = Fin fx" "get_y f = Fin fy"
    using gp(1) unfolding grid_point_def fx_def fy_def by (blast intro: on_grid_the_real)+
  have ca: "get_x t1 = Fin ax" "get_y t1 = Fin ay"
    using gp(2) unfolding grid_point_def ax_def ay_def by (blast intro: on_grid_the_real)+
  have cb: "get_x f2 = Fin bx" "get_y f2 = Fin bY"
    using gp(3) unfolding grid_point_def bx_def bY_def by (blast intro: on_grid_the_real)+
  have ct: "get_x t2 = Fin tx" "get_y t2 = Fin ty"
    using gp(4) unfolding grid_point_def tx_def ty_def by (blast intro: on_grid_the_real)+
  have ab: "bx = ax" "bY = ay" using same ca cb by simp_all
  have p0: "placed p (ctrls w) ?X ?Y ?S (ctrls w)" by (rule placed_self[OF inv])
  note p1 = Drag_execute_placed[OF gp(2,1) ca cf p0]
  note p2 = Drag_execute_placed[OF gp(4,3) ct cb p1(1)]
  note p3 = Drag_execute_placed[OF gp(1,4) cf ct p2(1)]
  have "ctrls ?w3 r = ctrls w r" for r
  proof (cases "r \<in> ?S")
    case True
    have o: "ctrls w r = place (ctrls w r) (Fin (?X r)) (Fin (?Y r))"
      using p0 True by (rule placedD(5))
    have "ctrls ?w3 r = place (ctrls w r)
            (Fin (shifted fs m fx tx (shifted fs m tx bx (shifted fs m ax fx ?X)) r))
            (Fin (shifted fs m fy ty (shifted fs m ty bY (shifted fs m ay fy ?Y)) r))"
      using p3(1) True by (rule placedD(5))
    moreover have "shifted fs m fx tx (shifted fs m tx bx (shifted fs m ax fx ?X)) r = ?X r"
      using mm(1) cf ab by (simp add: shifted_def the_real_def algebra_simps)
    moreover have "shifted fs m fy ty (shifted fs m ty bY (shifted fs m ay fy ?Y)) r = ?Y r"
      using mm(2) cf ab by (simp add: shifted_def the_real_def algebra_simps)
    ultimately show ?thesis using o by simp
  next
    case False
    then show ?thesis using p1(2)[of r] p2(2)[of r] p3(2)[of r] by simp
  qed
  then show ?thesis by (simp add: Drag_undo_as_execute fun_eq_iff)
qed


subsection \<open>\<open>execute\<close> and \<open>undo\<close> on a pending entry\<close>

lemma execute_new_slot:
  assumes "lastExecution h = None" "command_execute (cmds w c) w = Inr (c1, w1)"
  shows "execute ttl c now mt (h, w) =
     Inr (h\<lparr>lastExecution := Some \<lparr>title = ttl, command = c, time = now, mergeTimeout = mt\<rparr>,
            redoHistory := []\<rparr>,
          w1\<lparr>cmds := (cmds w1)(c := c1)\<rparr>)"
  using assms by (simp add: execute_def may_merge_def open_execution_def commit_def Let_def)

lemma execute_merges:
  assumes "lastExecution h = Some le" "command_execute (cmds w c) w = Inr (c1, w1)"
    and "ttl = title le"
    and "isMergeable (cmds (w1\<lparr>cmds := (cmds w1)(c := c1)\<rparr>) c)"
    and "isMergeable (cmds (w1\<lparr>cmds := (cmds w1)(c := c1)\<rparr>) (command le))"
    and "now - time le < mt"
    and "command_merge (cmds (w1\<lparr>cmds := (cmds w1)(c := c1)\<rparr>) (command le))
           (cmds (w1\<lparr>cmds := (cmds w1)(c := c1)\<rparr>) c) = Inr (True, lc)"
  shows "execute ttl c now mt (h, w) =
     Inr (h\<lparr>lastExecution := Some (le\<lparr>time := now\<rparr>), redoHistory := []\<rparr>,
          w1\<lparr>cmds := ((cmds w1)(c := c1))(command le := lc)\<rparr>)"
  using assms by (simp add: execute_def may_merge_def js_typeof_def Let_def)

lemma undo_pending:
  assumes "lastExecution h = Some le" "command_undo (cmds w (command le)) w = Inr (c', w')"
  shows "undo (h, w) =
     Inr (h\<lparr>lastExecution := None, redoHistory := redoHistory h @ [command le]\<rparr>,
          w'\<lparr>cmds := (cmds w')(command le := c')\<rparr>)"
  using assms by (simp add: undo_def commit_def Let_def)


subsection \<open>The merge law, by class\<close>

lemma Drag_undo_other [simp]:
  "props (Drag_undo m frm to fs w) = props w"
  "paths (Drag_undo m frm to fs w) = paths w"
  "cmds (Drag_undo m frm to fs w) = cmds w"
  by (simp_all add: Drag_undo_as_execute)

lemma merge_law_drag:
  assumes A: "cmds w a = DragControls m f t1 fs" and B: "cmds w b = DragControls m f2 t2 fs"
    and ab: "a \<noteq> b" and none: "lastExecution h = None" and tm: "now2 - now1 < mt2"
    and gp: "grid_point p f" "grid_point p t1" "grid_point p f2" "grid_point p t2"
    and same: "get_x f2 = get_x t1" "get_y f2 = get_y t1"
    and inv: "\<forall>r \<in> insert m (set fs). at_rest (ctrls w r) \<and> grid_point p (ctrls w r)"
    and mm: "get_x (ctrls w m) = get_x f" "get_y (ctrls w m) = get_y f"
  shows "\<exists>h1 w1 h2 w2 h3 w3.
           execute ttl a now1 mt1 (h, w) = Inr (h1, w1)
         \<and> execute ttl b now2 mt2 (h1, w1) = Inr (h2, w2)
         \<and> history h2 = history h
         \<and> lastExecution h2 = Some \<lparr>title = ttl, command = a, time = now2, mergeTimeout = mt1\<rparr>
         \<and> history (commit h2) = history h @ [a]
         \<and> undo (h2, w2) = Inr (h3, w3)
         \<and> history h3 = history h \<and> redoHistory h3 = [a] \<and> same_state w3 w"
proof -
  let ?exe = "\<lparr>title = ttl, command = a, time = now1, mergeTimeout = mt1\<rparr>"
  define W1 where "W1 = Drag_execute m f t1 fs w"
  define w1 where "w1 = W1\<lparr>cmds := (cmds W1)(a := DragControls m f t1 fs)\<rparr>"
  define h1 where "h1 = h\<lparr>lastExecution := Some ?exe, redoHistory := []\<rparr>"
  define W2 where "W2 = Drag_execute m f2 t2 fs w1"
  define w2 where "w2 = W2\<lparr>cmds := ((cmds W2)(b := DragControls m f2 t2 fs))
                                   (a := DragControls m f t2 fs)\<rparr>"
  define h2 where "h2 = h1\<lparr>lastExecution := Some (?exe\<lparr>time := now2\<rparr>), redoHistory := []\<rparr>"
  define W3 where "W3 = Drag_undo m f t2 fs w2"
  define w3 where "w3 = W3\<lparr>cmds := (cmds W3)(a := DragControls m f t2 fs)\<rparr>"
  define h3 where "h3 = h2\<lparr>lastExecution := None, redoHistory := redoHistory h2 @ [a]\<rparr>"
  have e1: "execute ttl a now1 mt1 (h, w) = Inr (h1, w1)"
    unfolding h1_def w1_def W1_def
    by (rule execute_new_slot[OF none]) (simp add: A)
  have c1: "cmds w1 a = DragControls m f t1 fs" "cmds w1 b = DragControls m f2 t2 fs"
    using ab B by (simp_all add: w1_def W1_def)
  have l1: "lastExecution h1 = Some ?exe" by (simp add: h1_def)
  have x2: "command_execute (cmds w1 b) w1 = Inr (DragControls m f2 t2 fs, W2)"
    by (simp add: c1 W2_def)
  have cW2: "cmds W2 a = DragControls m f t1 fs" by (simp add: W2_def c1)
  have "execute ttl b now2 mt2 (h1, w1) =
     Inr (h1\<lparr>lastExecution := Some (?exe\<lparr>time := now2\<rparr>), redoHistory := []\<rparr>,
          W2\<lparr>cmds := ((cmds W2)(b := DragControls m f2 t2 fs))
                          (command ?exe := DragControls m f t2 fs)\<rparr>)"
    by (rule execute_merges[OF l1 x2]) (use ab tm cW2 in simp_all)
  then have e2: "execute ttl b now2 mt2 (h1, w1) = Inr (h2, w2)"
    by (simp add: h2_def w2_def)
  have c2: "cmds w2 a = DragControls m f t2 fs" by (simp add: w2_def)
  have l2: "lastExecution h2 = Some (?exe\<lparr>time := now2\<rparr>)" by (simp add: h2_def)
  have x3: "command_undo (cmds w2 (command (?exe\<lparr>time := now2\<rparr>))) w2
              = Inr (DragControls m f t2 fs, W3)"
    by (simp add: c2 W3_def)
  have e3: "undo (h2, w2) = Inr (h3, w3)"
    unfolding h3_def w3_def using undo_pending[OF l2 x3] by simp
  have k1: "ctrls w1 = ctrls (Drag_execute m f t1 fs w)" by (simp add: w1_def W1_def)
  have k2: "ctrls w2 = ctrls (Drag_execute m f2 t2 fs (Drag_execute m f t1 fs w))"
    using Drag_execute_same_ctrls[OF k1, of m f2 t2 fs] by (simp add: w2_def W2_def)
  have "ctrls W3 = ctrls (Drag_execute m t2 f fs w2)"
    by (simp add: W3_def Drag_undo_as_execute)
  also have "\<dots> = ctrls (Drag_execute m t2 f fs (Drag_execute m f2 t2 fs (Drag_execute m f t1 fs w)))"
    by (rule Drag_execute_same_ctrls[OF k2])
  also have "\<dots> = ctrls w"
    using Drag_merged_round_trip[OF gp same inv mm] by (simp add: Drag_undo_as_execute)
  finally have k3: "ctrls w3 = ctrls w" by (simp add: w3_def)
  have s3: "same_state w3 w"
    using k3 by (simp add: same_state_def w3_def W3_def w2_def W2_def w1_def W1_def)
  have hs: "history h2 = history h"
      "lastExecution h2 = Some \<lparr>title = ttl, command = a, time = now2, mergeTimeout = mt1\<rparr>"
      "history (commit h2) = history h @ [a]" "history h3 = history h" "redoHistory h3 = [a]"
    by (simp_all add: h3_def h2_def h1_def commit_def)
  from e1 e2 e3 hs s3 show ?thesis by blast
qed


lemma UIP_merge_executed:
  assumes "length pa = n" "length pb = n"
  shows "UIP_merge_loop [0 ..< n] (UpdateInstancesProperties ts' vb (Some pb)) (Some pa) va =
     Inr (Some (map (\<lambda>i. (pb ! i) ++ (pa ! i)) [0 ..< n]),
          if n = 0 then va else va ++ vb)"
proof -
  have "UIP_merge_loop [0 ..< n] (UpdateInstancesProperties ts' vb (Some pb)) (Some pa) va =
     Inr (Some (map (\<lambda>i. if i \<in> set [0 ..< n]
                          then (if i < length pb then pb ! i else Map.empty) ++ (pa ! i)
                          else pa ! i) [0 ..< length pa]),
          if [0 ..< n] = [] then va
          else va ++ latest_newValues (UpdateInstancesProperties ts' vb (Some pb)))"
    by (rule UIP_merge_loop_closed) (simp_all add: assms)
  moreover have "map (\<lambda>i. if i \<in> set [0 ..< n]
                          then (if i < length pb then pb ! i else Map.empty) ++ (pa ! i)
                          else pa ! i) [0 ..< length pa]
        = map (\<lambda>i. (pb ! i) ++ (pa ! i)) [0 ..< n]"
    using assms by simp
  ultimately show ?thesis by simp
qed

lemma merge_law_update:
  assumes A: "cmds w a = UpdateInstancesProperties ts va pa"
    and B: "cmds w b = UpdateInstancesProperties ts vb pb"
    and ab: "a \<noteq> b" and none: "lastExecution h = None" and tm: "now2 - now1 < mt2"
    and d: "distinct ts"
  shows "\<exists>h1 w1 h2 w2 h3 w3.
           execute ttl a now1 mt1 (h, w) = Inr (h1, w1)
         \<and> execute ttl b now2 mt2 (h1, w1) = Inr (h2, w2)
         \<and> history h2 = history h
         \<and> lastExecution h2 = Some \<lparr>title = ttl, command = a, time = now2, mergeTimeout = mt1\<rparr>
         \<and> history (commit h2) = history h @ [a]
         \<and> undo (h2, w2) = Inr (h3, w3)
         \<and> history h3 = history h \<and> redoHistory h3 = [a] \<and> same_state w3 w"
proof -
  let ?exe = "\<lparr>title = ttl, command = a, time = now1, mergeTimeout = mt1\<rparr>"
  let ?n = "length ts"
  define PA H1 where "PA = fst (UIP_execute ts va (props w))"
    and "H1 = snd (UIP_execute ts va (props w))"
  define PB H2 where "PB = fst (UIP_execute ts vb H1)" and "H2 = snd (UIP_execute ts vb H1)"
  define PM where "PM = map (\<lambda>i. (PB ! i) ++ (PA ! i)) [0 ..< ?n]"
  define vm where "vm = (if ?n = 0 then va else va ++ vb)"
  define A1 where "A1 = UpdateInstancesProperties ts va (Some PA)"
  define B1 where "B1 = UpdateInstancesProperties ts vb (Some PB)"
  define AM where "AM = UpdateInstancesProperties ts vm (Some PM)"
  define W1 where "W1 = w\<lparr>props := H1\<rparr>"
  define w1 where "w1 = W1\<lparr>cmds := (cmds W1)(a := A1)\<rparr>"
  define h1 where "h1 = h\<lparr>lastExecution := Some ?exe, redoHistory := []\<rparr>"
  define W2 where "W2 = w1\<lparr>props := H2\<rparr>"
  define w2 where "w2 = W2\<lparr>cmds := ((cmds W2)(b := B1))(a := AM)\<rparr>"
  define h2 where "h2 = h1\<lparr>lastExecution := Some (?exe\<lparr>time := now2\<rparr>), redoHistory := []\<rparr>"
  define W3 where "W3 = w2\<lparr>props := UIP_undo ts PM H2\<rparr>"
  define w3 where "w3 = W3\<lparr>cmds := (cmds W3)(a := UpdateInstancesProperties ts vm None)\<rparr>"
  define h3 where "h3 = h2\<lparr>lastExecution := None, redoHistory := redoHistory h2 @ [a]\<rparr>"
  have len: "length PA = ?n" "length PB = ?n"
    by (simp_all add: PA_def H1_def PB_def H2_def UIP_execute_distinct[OF d])
  have x1: "command_execute (cmds w a) w = Inr (A1, W1)"
    by (simp add: A A1_def W1_def PA_def H1_def split_beta)
  have e1: "execute ttl a now1 mt1 (h, w) = Inr (h1, w1)"
    unfolding h1_def w1_def by (rule execute_new_slot[OF none x1])
  have c1: "cmds w1 a = A1" "cmds w1 b = UpdateInstancesProperties ts vb pb"
    using ab B by (simp_all add: w1_def W1_def)
  have l1: "lastExecution h1 = Some ?exe" by (simp add: h1_def)
  have p1: "props w1 = H1" by (simp add: w1_def W1_def)
  have x2: "command_execute (cmds w1 b) w1 = Inr (B1, W2)"
    by (simp add: c1 B1_def W2_def PB_def H2_def split_beta p1)
  have cW2: "cmds W2 a = A1" by (simp add: W2_def c1)
  have mg: "command_merge A1 B1 = Inr (True, AM)"
    unfolding A1_def B1_def AM_def PM_def vm_def
    by (simp add: UIP_merge_executed[OF len])
  have "execute ttl b now2 mt2 (h1, w1) =
     Inr (h1\<lparr>lastExecution := Some (?exe\<lparr>time := now2\<rparr>), redoHistory := []\<rparr>,
          W2\<lparr>cmds := ((cmds W2)(b := B1))(command ?exe := AM)\<rparr>)"
  proof (rule execute_merges[OF l1 x2])
    show "ttl = title ?exe" by simp
    show "isMergeable (cmds (W2\<lparr>cmds := (cmds W2)(b := B1)\<rparr>) b)" by (simp add: B1_def)
    show "isMergeable (cmds (W2\<lparr>cmds := (cmds W2)(b := B1)\<rparr>) (command ?exe))"
      using ab cW2 by (simp add: A1_def)
    show "now2 - time ?exe < mt2" using tm by simp
    show "command_merge (cmds (W2\<lparr>cmds := (cmds W2)(b := B1)\<rparr>) (command ?exe))
            (cmds (W2\<lparr>cmds := (cmds W2)(b := B1)\<rparr>) b) = Inr (True, AM)"
      using ab cW2 mg by simp
  qed
  then have e2: "execute ttl b now2 mt2 (h1, w1) = Inr (h2, w2)"
    by (simp add: h2_def w2_def)
  have c2: "cmds w2 a = AM" by (simp add: w2_def)
  have l2: "lastExecution h2 = Some (?exe\<lparr>time := now2\<rparr>)" by (simp add: h2_def)
  have p2: "props w2 = H2" by (simp add: w2_def W2_def)
  have x3: "command_undo (cmds w2 (command (?exe\<lparr>time := now2\<rparr>))) w2
              = Inr (UpdateInstancesProperties ts vm None, W3)"
    by (simp add: c2 AM_def W3_def p2)
  have e3: "undo (h2, w2) = Inr (h3, w3)"
    unfolding h3_def w3_def using undo_pending[OF l2 x3] by simp
  have "reads (props w3) = reads (UIP_undo ts PM H2)" by (simp add: w3_def W3_def)
  also have "\<dots> = reads (props w)"
    unfolding PM_def PB_def H2_def PA_def H1_def by (rule UIP_merged_undo_reads[OF d])
  finally have s3: "same_state w3 w"
    by (simp add: same_state_def w3_def W3_def w2_def W2_def w1_def W1_def)
  have hs: "history h2 = history h"
      "lastExecution h2 = Some \<lparr>title = ttl, command = a, time = now2, mergeTimeout = mt1\<rparr>"
      "history (commit h2) = history h @ [a]" "history h3 = history h" "redoHistory h3 = [a]"
    by (simp_all add: h3_def h2_def h1_def commit_def)
  from e1 e2 e3 hs s3 show ?thesis by blast
qed


subsection \<open>When \<open>execute\<close> merges\<close>

lemma execute_merge_iff:
  assumes le: "lastExecution h = Some le"
    and x: "command_execute (cmds w c) w = Inr (c1, w1)"
    and e: "execute ttl c now mt (h, w) = Inr (h', w')"
  shows "((history h' = history h \<and> lastExecution h' = Some (le\<lparr>time := now\<rparr>))
          \<longleftrightarrow> (ttl = title le
               \<and> isMergeable (cmds (w1\<lparr>cmds := (cmds w1)(c := c1)\<rparr>) c)
               \<and> isMergeable (cmds (w1\<lparr>cmds := (cmds w1)(c := c1)\<rparr>) (command le))
               \<and> now - time le < mt
               \<and> (case command_merge (cmds (w1\<lparr>cmds := (cmds w1)(c := c1)\<rparr>) (command le))
                                       (cmds (w1\<lparr>cmds := (cmds w1)(c := c1)\<rparr>) c)
                    of Inl e \<Rightarrow> False | Inr (merged, lc) \<Rightarrow> merged)))
       \<and> (\<not> (history h' = history h \<and> lastExecution h' = Some (le\<lparr>time := now\<rparr>))
            \<longrightarrow> history h' = history h @ [command le]
                \<and> lastExecution h' = Some \<lparr>title = ttl, command = c, time = now, mergeTimeout = mt\<rparr>)"
  using e
  by (auto simp: execute_def x le may_merge_def js_typeof_def open_execution_def commit_def Let_def
      split: sum.splits prod.splits if_splits)






text \<open>
  Commands of different classes: \<open>typeof\<close> is the same for all commands. An update of no
  object followed by a drag with the same title is merged; the history holds the update
  alone.
\<close>

lemma update_of_no_object_merges_with_drag: "ex_update_then_drag = Inr [2]"
  by (simp add: ex_update_then_drag_def ex_merge_world_def ex_editor_def
      ex_drag_def and_then_def execute_def may_merge_def js_typeof_def
      open_execution_def commit_def new_CommandHistory_def UIP_execute_def Let_def)

section \<open>A drag and a move of a keyframe that \<open>undo\<close> does not take back\<close>

text \<open>
  Why the points of a drag are taken on the grid: an \<open>EndPointControl\<close> at (0, 0) that
  follows a drag from (0, 0) to (0.005, 0) is moved to \<open>x = 0.01\<close>, since its class rounds
  to two digits, and the move back from (0.005, 0) to (0, 0) leaves it at \<open>x = 0.01\<close>.
\<close>

lemma ex_follower_moved:
  "fst (move_follower ex_fine_drag_to ex_fine_drag_from ex_A g) =
     AnEndPoint \<lparr>x = Fin (1 / 100), y = Fin 0, uid = 0, lock = False, visible = True,
                 ep_heading = Fin 0\<rparr>"
  by (simp add: move_follower_point ex_A_def ex_fine_drag_from_def ex_fine_drag_to_def
      new_Vertex_def precision_def round_to_def place_def EndPointControl_fixPrecision_def
      Vertex_fixPrecision_def normalize_heading_def trunc_def Let_def)

lemma ex_follower_moved_back:
  "fst (move_follower ex_fine_drag_from ex_fine_drag_to
          (AnEndPoint \<lparr>x = Fin (1 / 100), y = Fin 0, uid = 0, lock = False, visible = True,
                 ep_heading = Fin 0\<rparr>) g) =
     AnEndPoint \<lparr>x = Fin (1 / 100), y = Fin 0, uid = 0, lock = False, visible = True,
                 ep_heading = Fin 0\<rparr>"
  by (simp add: move_follower_point ex_fine_drag_from_def ex_fine_drag_to_def
      new_Vertex_def precision_def round_to_def place_def EndPointControl_fixPrecision_def
      Vertex_fixPrecision_def normalize_heading_def trunc_def Let_def)

lemma ex_fine_drag_followers:
  "fst (move_followers ex_fine_drag_to ex_fine_drag_from [2] (H(2 := ex_A), g)) 2 =
     AnEndPoint \<lparr>x = Fin (1 / 100), y = Fin 0, uid = 0, lock = False, visible = True,
                 ep_heading = Fin 0\<rparr>"
  "fst (move_followers ex_fine_drag_from ex_fine_drag_to [2]
         (H(2 := AnEndPoint \<lparr>x = Fin (1 / 100), y = Fin 0, uid = 0, lock = False,
                              visible = True, ep_heading = Fin 0\<rparr>), g)) 2 =
     AnEndPoint \<lparr>x = Fin (1 / 100), y = Fin 0, uid = 0, lock = False, visible = True,
                 ep_heading = Fin 0\<rparr>"
  by (simp_all only: move_followers_Cons move_followers_Nil fst_conv fun_upd_same
      ex_follower_moved ex_follower_moved_back)

lemma ex_fine_drag_executed:
  assumes "m \<noteq> 2"
  shows "ctrls (Drag_execute m ex_fine_drag_from ex_fine_drag_to [2] ex_world) 2 =
     AnEndPoint \<lparr>x = Fin (1 / 100), y = Fin 0, uid = 0, lock = False, visible = True,
                 ep_heading = Fin 0\<rparr>"
proof -
  have "ctrls ex_world = (ctrls ex_world)(2 := ex_A)" by (simp add: ex_world_def fun_eq_iff)
  then have "fst (move_followers ex_fine_drag_to ex_fine_drag_from [2] (ctrls ex_world, 0)) 2 =
     AnEndPoint \<lparr>x = Fin (1 / 100), y = Fin 0, uid = 0, lock = False, visible = True,
                 ep_heading = Fin 0\<rparr>"
    using ex_fine_drag_followers(1)[of "ctrls ex_world" 0] by simp
  then show ?thesis unfolding Drag_execute_ctrls using assms by simp
qed

lemma ex_fine_drag_undone_ctrls:
  assumes "m \<noteq> 2"
  shows "ctrls (Drag_undo m ex_fine_drag_from ex_fine_drag_to [2]
            (Drag_execute m ex_fine_drag_from ex_fine_drag_to [2] ex_world)) 2 =
     AnEndPoint \<lparr>x = Fin (1 / 100), y = Fin 0, uid = 0, lock = False, visible = True,
                 ep_heading = Fin 0\<rparr>"
proof -
  let ?w1 = "Drag_execute m ex_fine_drag_from ex_fine_drag_to [2] ex_world"
  let ?p = "AnEndPoint \<lparr>x = Fin (1 / 100), y = Fin 0, uid = 0, lock = False, visible = True,
                 ep_heading = Fin 0\<rparr>"
  have "ctrls ?w1 = (ctrls ?w1)(2 := ?p)"
    using ex_fine_drag_executed[OF assms] by (simp add: fun_eq_iff)
  then have "fst (move_followers ex_fine_drag_from ex_fine_drag_to [2] (ctrls ?w1, 0)) 2 = ?p"
    using ex_fine_drag_followers(2)[of "ctrls ?w1" 0] by simp
  then show ?thesis unfolding Drag_undo_as_execute Drag_execute_ctrls using assms by simp
qed

text \<open>
  Why no keyframe of the same \<open>xPos\<close> comes after a keyframe that is moved: segment 10 holds
  the keyframes 20 and 21, in this order, both at \<open>xPos\<close> 0.5. Keyframe 20 is moved to
  segment 11; \<open>undo\<close> pushes it back on segment 10 and sorts, which leaves it after keyframe
  21.
\<close>

lemma ex_move_first_evaluated:
  "ex_move_first_undone = Inr ([Some 21, Some 20], [])"
  by (simp add: ex_move_first_undone_def ex_move_first_def and_then_def MoveKeyframe_execute_def
      ex_track_fields Let_def js_splice_def MoveKeyframe_addKeyframe_def
      MoveKeyframe_removeKeyframe_def push_keyframe_def set_profiles_def sort_xPos_def
      List.map_filter_def ex_track_def)


end
